theory Spec2Isabelle
  imports Main "HOL-Library.AList" "HOL-Library.Sublist"
begin

section \<open>Python values, strings and errors\<close>

text \<open>
  The exceptions the modelled code can raise: \<open>children[0]\<close> on an empty list
  (IndexError), unpacking a one-element list into two names and \<open>max\<close> of an empty
  sequence (ValueError), \<open>.id\<close> of \<open>None\<close> (AttributeError), a key that a
  dictionary does not hold (KeyError), \<open>next\<close> of an exhausted iterator
  (StopIteration).
\<close>

datatype error = IndexError | ValueError | AttributeError | KeyError | StopIteration

text \<open>
  A node id is the string \<open>'root'\<close>, an integer, or not yet set; \<open>parentid\<close> may
  be \<open>None\<close>.
\<close>

datatype pyval = PyNone | PyStr string | PyInt int

datatype level = WARNING | INFO

type_synonym log = "(level \<times> string) list"

definition digit :: "nat \<Rightarrow> char" where
  "digit n = ''0123456789'' ! n"

fun str_nat :: "nat \<Rightarrow> string" where
  "str_nat n = (if n < 10 then [digit n] else str_nat (n div 10) @ [digit (n mod 10)])"

declare str_nat.simps [simp del]

definition str_int :: "int \<Rightarrow> string" where
  "str_int i = (if i < 0 then CHR ''-'' # str_nat (nat (- i)) else str_nat (nat i))"

text \<open>\<open>'%s' % v\<close>.\<close>

fun str :: "pyval \<Rightarrow> string" where
  "str PyNone = ''None''"
| "str (PyStr s) = s"
| "str (PyInt i) = str_int i"

definition TAB :: char where
  "TAB = CHR 0x09"

definition NL :: char where
  "NL = CHR 0x0A"

definition CR :: char where
  "CR = CHR 0x0D"

text \<open>\<open>s.rstrip(cs)\<close>.\<close>

definition rstrip :: "char list \<Rightarrow> string \<Rightarrow> string" where
  "rstrip cs s = rev (dropWhile (\<lambda>c. c \<in> set cs) (rev s))"

text \<open>\<open>s.strip(cs)\<close>.\<close>

definition strip :: "char list \<Rightarrow> string \<Rightarrow> string" where
  "strip cs s = rstrip cs (dropWhile (\<lambda>c. c \<in> set cs) s)"

text \<open>\<open>s.split(sep)\<close> for a separator of one character: never the empty list.\<close>

fun split :: "char \<Rightarrow> string \<Rightarrow> string list" where
  "split sep [] = [[]]"
| "split sep (c # cs) =
     (if c = sep then [] # split sep cs
      else (case split sep cs of
              [] \<Rightarrow> [[c]]
            | w # ws \<Rightarrow> (c # w) # ws))"

text \<open>\<open>sep.join(xs)\<close>.\<close>

fun join :: "string \<Rightarrow> string list \<Rightarrow> string" where
  "join sep [] = []"
| "join sep [x] = x"
| "join sep (x # y # ys) = x @ sep @ join sep (y # ys)"

text \<open>
  The characters \<open>str.isspace\<close> accepts, among those a \<open>char\<close> can hold:
  tab, line feed, vertical tab, form feed, carriage return, the four separators
  0x1C to 0x1F, space, and 0x85 and 0xA0.
\<close>

definition isspace :: "char \<Rightarrow> bool" where
  "isspace c = (of_char c \<in> set [9, 10, 11, 12, 13, 28, 29, 30, 31, 32, 133, 160 :: nat])"

text \<open>\<open>s.strip()\<close>.\<close>

definition strip_ws :: "string \<Rightarrow> string" where
  "strip_ws s = rev (dropWhile isspace (rev (dropWhile isspace s)))"

text \<open>
  \<open>s.split(None, 1)\<close>: leading whitespace is dropped, the first word ends at the
  first whitespace, and what follows the whitespace run, if anything, is the second
  element, kept as it is.
\<close>

definition split_ws1 :: "string \<Rightarrow> string list" where
  "split_ws1 s =
     (let t = dropWhile isspace s in
      if t = [] then []
      else (let w = takeWhile (\<lambda>c. \<not> isspace c) t;
                r = dropWhile isspace (dropWhile (\<lambda>c. \<not> isspace c) t)
            in if r = [] then [w] else [w, r]))"

section \<open>Taxonomy nodes\<close>

text \<open>
  Modelled from the spec: the class \<open>edl.taxon.TaxNode\<close> (and its subclass
  \<open>edl.silva.SilvaTaxNode\<close>), which is not among the sources. A node has an
  \<open>id\<close>, a \<open>name\<close>, a \<open>rank\<close> (\<open>None\<close> until assigned), a \<open>parent\<close>
  (\<open>None\<close> for the synthetic root) and an ordered collection of \<open>children\<close>.
  The constructor \<open>TaxNode(id, parentid, rank)\<close> stores its arguments;
  \<open>ncbi_tax_id\<close> is the attribute buildSilvaTree adds to a node, \<open>None\<close> here
  standing for the attribute being absent.

  Python's nodes are objects that refer to each other. The model keeps them in a
  heap, a list of nodes in creation order; a reference to a node is its index there,
  and the synthetic root is at index 0.
\<close>

record TaxNode =
  id_n :: pyval
  parentid :: pyval
  rank :: "string option"
  name :: string
  parent :: "nat option"
  children :: "nat list"
  ncbi_tax_id :: "int option"

type_synonym heap = "TaxNode list"

definition TaxNode_init :: "pyval \<Rightarrow> pyval \<Rightarrow> string option \<Rightarrow> TaxNode" where
  "TaxNode_init taxid pid r =
     \<lparr>id_n = taxid, parentid = pid, rank = r, name = [], parent = None, children = [],
      ncbi_tax_id = None\<rparr>"

text \<open>
  \<open>node.setParent(p)\<close>, for the node at index \<open>a\<close>: the node records its parent
  and is appended to the parent's children.
\<close>

definition setParent :: "nat \<Rightarrow> nat \<Rightarrow> heap \<Rightarrow> heap" where
  "setParent a p h =
     (let h1 = h[a := (h ! a)\<lparr>parent := Some p\<rparr>]
      in h1[p := (h1 ! p)\<lparr>children := children (h1 ! p) @ [a]\<rparr>])"

section \<open>buildPR2Tree\<close>

definition ranks :: "string list" where
  "ranks = [''domain'', ''kingdom'', ''phylum'', ''class'', ''order'', ''family'',
            ''genus'', ''species'']"

record pr2_state =
  nextId :: int
  nodes :: heap
  prTree :: "(pyval \<times> nat) list"
  taxaByNameAndRank :: "string \<Rightarrow> string \<rightharpoonup> nat"
  taxMap :: "(string \<times> pyval) list"
  outhandle :: "string list"

text \<open>
  The state before the first line: the synthetic root \<open>TaxNode('root', None, None)\<close>
  alone in the heap and in \<open>prTree\<close>, one empty table per rank, an empty map.
\<close>

definition pr2_init :: "int \<Rightarrow> pr2_state" where
  "pr2_init n =
     \<lparr>nextId = n,
      nodes = [TaxNode_init (PyStr ''root'') PyNone None],
      prTree = [(PyStr ''root'', 0)],
      taxaByNameAndRank = (\<lambda>r. Map.empty),
      taxMap = [],
      outhandle = []\<rparr>"

text \<open>
  One round of the loop over \<open>zip(ranks, names)\<close> (lines 130 to 141): the name is
  looked up in the table of its rank; a name that is not there gets a new node under
  \<open>lastNode\<close>, with the next id.
\<close>

fun pr2_taxon :: "pr2_state \<times> nat \<Rightarrow> string \<times> string \<Rightarrow> pr2_state \<times> nat" where
  "pr2_taxon (st, lastNode) (r, taxName) =
     (case taxaByNameAndRank st r taxName of
        None \<Rightarrow>
          (let n = nextId st + 1;
               a = length (nodes st);
               newNode = (TaxNode_init (PyInt n) (id_n (nodes st ! lastNode)) None)
                           \<lparr>name := taxName, rank := Some r\<rparr>;
               h = setParent a lastNode (nodes st @ [newNode])
           in (st\<lparr>nextId := n,
                  nodes := h,
                  prTree := AList.update (PyInt n) a (prTree st),
                  taxaByNameAndRank :=
                    (taxaByNameAndRank st)(r := (taxaByNameAndRank st r)(taxName \<mapsto> a))\<rparr>,
               a))
      | Some a \<Rightarrow> (st, a))"

text \<open>The body of the loop over the lines of the fasta file (lines 122 to 151).\<close>

definition pr2_line :: "bool \<Rightarrow> pr2_state \<Rightarrow> string \<Rightarrow> pr2_state" where
  "pr2_line fastaout st line =
     (if line \<noteq> [] \<and> hd line = CHR ''>'' then
        (case split (CHR ''|'') (rstrip [NL, CR] (tl line)) of
           [] \<Rightarrow> st
         | hitid # names \<Rightarrow>
             (let (st1, lastNode) = foldl pr2_taxon (st, 0) (zip ranks names);
                  st2 = st1\<lparr>taxMap :=
                              AList.update hitid (id_n (nodes st1 ! lastNode)) (taxMap st1)\<rparr>
              in if fastaout
                 then st2\<lparr>outhandle := outhandle st2 @
                            [CHR ''>'' # hitid @ '' '' @ join '';'' names @ [NL]]\<rparr>
                 else st2))
      else if fastaout then st\<lparr>outhandle := outhandle st @ [line]\<rparr> else st)"

definition pr2_lines :: "bool \<Rightarrow> int \<Rightarrow> string list \<Rightarrow> pr2_state" where
  "pr2_lines fastaout n ls = foldl (pr2_line fastaout) (pr2_init n) ls"

text \<open>
  Lines 153 to 164: what is logged and returned once the lines are read. The result
  is the log and either the exception or the new root, the heap it lives in and the
  map from hit ids to taxon ids.
\<close>

definition pr2_root :: "pr2_state \<Rightarrow> log \<times> (error + nat \<times> heap \<times> (string \<times> pyval) list)" where
  "pr2_root st =
     (let cs = children (nodes st ! 0);
          lg = (if length cs \<noteq> 1
                then [(WARNING, ''There should only be one child of root! Not '' @
                        str_nat (length cs) @ '':'' @ [NL] @
                        join '', '' (map (\<lambda>c. name (nodes st ! c)) cs))]
                else [])
      in (case cs of
            [] \<Rightarrow> (lg, Inl IndexError)
          | c # _ \<Rightarrow>
              (lg @ [(INFO, ''New root is: '' @ name (nodes st ! c))],
               Inr (c, nodes st, taxMap st))))"

definition buildPR2Tree ::
  "string list \<Rightarrow> bool \<Rightarrow> int \<Rightarrow> log \<times> (error + nat \<times> heap \<times> (string \<times> pyval) list)" where
  "buildPR2Tree fastaFile fastaout n = pr2_root (pr2_lines fastaout n fastaFile)"

section \<open>writeDumpFiles\<close>

text \<open>
  Lines 83 to 88. The list \<open>edl.taxon.ranks\<close> of the ranks the dump format knows is
  not among the sources; it is the parameter \<open>taxon_ranks\<close>.
\<close>

definition dump_rank :: "string list \<Rightarrow> string option \<Rightarrow> string" where
  "dump_rank taxon_ranks r =
     (if r = Some ''domain'' then ''superkingdom''
      else (case r of
              None \<Rightarrow> ''no rank''
            | Some s \<Rightarrow> if s \<in> set taxon_ranks then s else ''no rank''))"

text \<open>The two format strings of lines 89 and 90, applied to their arguments.\<close>

definition node_line :: "pyval \<Rightarrow> pyval \<Rightarrow> string \<Rightarrow> string" where
  "node_line nid nparent nrank =
     str nid @ [TAB] @ ''|'' @ [TAB] @ str nparent @ [TAB] @ ''|'' @ [TAB] @ nrank @ [TAB, NL]"

definition name_line :: "pyval \<Rightarrow> string \<Rightarrow> string" where
  "name_line nid nname =
     str nid @ [TAB] @ ''|'' @ [TAB] @ nname @ [TAB] @ ''|'' @ [TAB] @ [TAB] @ ''|'' @ [TAB] @
     ''scientific name'' @ [TAB, NL]"

text \<open>
  Lines 79 to 82: the parent id written for a node. A node other than the root whose
  parent is \<open>None\<close> makes \<open>node.parent.id\<close> raise. Two nodes are equal when they are
  the same object.
\<close>

definition dump_parent :: "heap \<Rightarrow> nat \<Rightarrow> nat \<Rightarrow> error + pyval" where
  "dump_parent h rootNode a =
     (if a = rootNode then Inr (id_n (h ! a))
      else (case parent (h ! a) of
              None \<Rightarrow> Inl AttributeError
            | Some p \<Rightarrow> Inr (id_n (h ! p))))"

text \<open>
  The loop of writeDumpFiles. \<open>treeGenerator\<close> is defined in \<open>edl.util\<close>, which is
  not among the sources: the sequence of nodes it yields for \<open>rootNode\<close> is the
  argument \<open>gen\<close>. The two streams are the lists of the strings written to them.
\<close>

fun writeDumpFiles ::
  "string list \<Rightarrow> heap \<Rightarrow> nat \<Rightarrow> nat list \<Rightarrow> string list \<times> string list \<Rightarrow>
   error + string list \<times> string list" where
  "writeDumpFiles taxon_ranks h rootNode [] (nodeStream, nameStream) =
     Inr (nodeStream, nameStream)"
| "writeDumpFiles taxon_ranks h rootNode (a # gen) (nodeStream, nameStream) =
     (let nid = id_n (h ! a); nname = name (h ! a)
      in (case dump_parent h rootNode a of
            Inl e \<Rightarrow> Inl e
          | Inr nparent \<Rightarrow>
              writeDumpFiles taxon_ranks h rootNode gen
                (nodeStream @ [node_line nid nparent (dump_rank taxon_ranks (rank (h ! a)))],
                 nameStream @ [name_line nid nname])))"

text \<open>Lines 72 and 73 of main: one line per entry of the map, in the map's order.\<close>

definition writeTaxMap :: "(string \<times> pyval) list \<Rightarrow> string list" where
  "writeTaxMap taxmap = map (\<lambda>(hitid, taxid). hitid @ [TAB] @ str taxid @ [NL]) taxmap"

section \<open>getOrgsFromSilvaFasta\<close>

text \<open>
  Lines 92 to 97. The generator yields one pair per header line; unpacking the result
  of \<open>split(None, 1)\<close> into two names raises ValueError unless it has two elements,
  and nothing catches it.
\<close>

fun getOrgsFromSilvaFasta :: "string list \<Rightarrow> error + (string \<times> string) list" where
  "getOrgsFromSilvaFasta [] = Inr []"
| "getOrgsFromSilvaFasta (line # ls) =
     (if line \<noteq> [] \<and> hd line = CHR ''>'' then
        (case split_ws1 (strip_ws (tl line)) of
           [read, desc] \<Rightarrow>
             (case getOrgsFromSilvaFasta ls of
                Inl e \<Rightarrow> Inl e
              | Inr rs \<Rightarrow> Inr ((read, desc) # rs))
         | _ \<Rightarrow> Inl ValueError)
      else getOrgsFromSilvaFasta ls)"

section \<open>buildSilvaTree\<close>

definition rankMapping :: "(string \<times> string) list" where
  "rankMapping = [(''superkingdom'', ''major_clade'')]"

text \<open>\<open>rankMapping.get(rank, rank)\<close>.\<close>

definition rankMapping_get :: "string \<Rightarrow> string" where
  "rankMapping_get r = (case map_of rankMapping r of None \<Rightarrow> r | Some v \<Rightarrow> v)"

text \<open>
  Modelled from the spec: \<open>parseMapFile\<close> of \<open>edl.util\<close>, which is not among the
  sources. The rows of the table are given already split into their columns, the id
  column already an integer; the result is the dictionary from the key column to the
  value column, a later row of the same key replacing the value of the earlier one.
\<close>

definition parseMapFile :: "('r \<Rightarrow> string) \<Rightarrow> ('r \<Rightarrow> 'v) \<Rightarrow> 'r list \<Rightarrow> (string \<times> 'v) list" where
  "parseMapFile keyCol valueCol rows =
     foldl (\<lambda>m row. AList.update (keyCol row) (valueCol row) m) [] rows"

text \<open>
  Modelled from the spec: \<open>SilvaTaxNode.addToTreeFromString\<close> of \<open>edl.silva\<close>, which
  is not among the sources. The lineage is split on its separator; starting at the
  root, each name is looked up among the children of the current node; an existing
  child is descended into, and otherwise a new node of that name, with no id and no
  rank of its own, is linked as a child of the current node. The first call on an
  empty tree creates the root.
\<close>

definition find_child :: "heap \<Rightarrow> nat \<Rightarrow> string \<Rightarrow> nat option" where
  "find_child h cur nm = List.find (\<lambda>c. name (h ! c) = nm) (children (h ! cur))"

fun silva_taxon :: "heap \<times> nat \<Rightarrow> string \<Rightarrow> heap \<times> nat" where
  "silva_taxon (h, cur) nm =
     (case find_child h cur nm of
        Some c \<Rightarrow> (h, c)
      | None \<Rightarrow>
          (let a = length h;
               newNode = (TaxNode_init PyNone PyNone None)\<lparr>name := nm\<rparr>
           in (setParent a cur (h @ [newNode]), a)))"

definition addToTreeFromString :: "string \<Rightarrow> heap \<Rightarrow> heap \<times> nat" where
  "addToTreeFromString taxString tree =
     (let h = (if tree = [] then [TaxNode_init PyNone PyNone None] else tree)
      in foldl silva_taxon (h, 0) (split (CHR '';'') taxString))"

text \<open>
  Modelled from the spec: \<open>getRootNode\<close>, which walks the parent links up to the node
  whose parent is \<open>None\<close>. A walk that never ends has no result.
\<close>

partial_function (option) getRootNode :: "heap \<Rightarrow> nat \<Rightarrow> nat option" where
  "getRootNode h a =
     (case parent (h ! a) of None \<Rightarrow> Some a | Some p \<Rightarrow> getRootNode h p)"

declare getRootNode.simps [code]

text \<open>
  Modelled from the spec: \<open>treeGenerator\<close> of \<open>edl.util\<close>, which is not among the
  sources: the nodes reachable from a root, each parent before its children, in
  pre-order. The walk goes as deep as the heap has nodes. The theorems below about
  writeDumpFiles and buildSilvaTree hold for any sequence of nodes in its place; this
  one is there to run the functions on concrete inputs.
\<close>

fun preorder :: "nat \<Rightarrow> heap \<Rightarrow> nat \<Rightarrow> nat list" where
  "preorder 0 h a = []"
| "preorder (Suc n) h a = a # concat (map (preorder n h) (children (h ! a)))"

definition treeGenerator :: "heap \<Rightarrow> nat \<Rightarrow> nat list" where
  "treeGenerator h a = preorder (length h) h a"

text \<open>\<open>max(xs)\<close>.\<close>

fun max_list :: "int list \<Rightarrow> error + int" where
  "max_list [] = Inl ValueError"
| "max_list (x # xs) = Inr (foldl max x xs)"

text \<open>
  Lines 178 to 183, the loop over \<open>rankMap.items()\<close>. The ids of the table are
  integers, so the warning of line 183 is never logged.
\<close>

fun silva_table :: "(string \<times> int) list \<Rightarrow> (string \<times> string) list \<Rightarrow> heap \<Rightarrow> error + heap" where
  "silva_table silvaTaxidMap [] silvaTree = Inr silvaTree"
| "silva_table silvaTaxidMap ((lineage, r) # items) silvaTree =
     (let (h1, node) = addToTreeFromString (strip ''; '' lineage) silvaTree;
          h2 = h1[node := (h1 ! node)\<lparr>rank := Some (rankMapping_get r)\<rparr>]
      in (case map_of silvaTaxidMap lineage of
            None \<Rightarrow> Inl KeyError
          | Some t \<Rightarrow>
              silva_table silvaTaxidMap items
                (h2[node := (h2 ! node)\<lparr>ncbi_tax_id := Some t\<rparr>])))"

text \<open>Lines 189 to 191, one record of the fasta file.\<close>

fun silva_record :: "heap \<times> (string \<times> nat) list \<Rightarrow> string \<times> string \<Rightarrow> heap \<times> (string \<times> nat) list" where
  "silva_record (silvaTree, taxmap) (hitid, lineage) =
     (let (h1, node) = addToTreeFromString lineage silvaTree
      in (h1, AList.update hitid node taxmap))"

text \<open>Lines 198 to 203, one node of the walk over the tree.\<close>

fun silva_fix :: "int \<times> heap \<Rightarrow> nat \<Rightarrow> int \<times> heap" where
  "silva_fix (maxTaxid, h) a =
     (case id_n (h ! a) of
        PyInt _ \<Rightarrow> (maxTaxid, h)
      | _ \<Rightarrow>
          (case ncbi_tax_id (h ! a) of
             Some t \<Rightarrow> (maxTaxid, h[a := (h ! a)\<lparr>id_n := PyInt t\<rparr>])
           | None \<Rightarrow> (maxTaxid + 1, h[a := (h ! a)\<lparr>id_n := PyInt (maxTaxid + 1)\<rparr>])))"

text \<open>
  buildSilvaTree. \<open>taxFile\<close> is the table as rows of lineage, id and rank;
  \<open>fastaFile\<close> is the fasta file as its lines; \<open>treeGen\<close> stands for
  \<open>treeGenerator\<close>. \<open>silvaTree\<close> is the heap: its first value is the first node
  created. The result is \<open>None\<close> when the function does not return.
\<close>

definition buildSilvaTree ::
  "(heap \<Rightarrow> nat \<Rightarrow> nat list) \<Rightarrow> (string \<times> int \<times> string) list \<Rightarrow> string list \<Rightarrow>
   (log \<times> (error + nat \<times> heap \<times> (string \<times> pyval) list)) option" where
  "buildSilvaTree treeGen taxFile fastaFile =
     (let rankMap = parseMapFile fst (snd \<circ> snd) taxFile;
          silvaTaxidMap = parseMapFile fst (fst \<circ> snd) taxFile
      in (case max_list (map snd silvaTaxidMap) of
            Inl e \<Rightarrow> Some ([], Inl e)
          | Inr maxTaxid \<Rightarrow>
      (case silva_table silvaTaxidMap rankMap [] of
            Inl e \<Rightarrow> Some ([], Inl e)
          | Inr h0 \<Rightarrow>
      (let lg1 = [(INFO, ''Built tree of '' @ str_nat (length h0) @
                         '' taxa with the largest ID of '' @ str_int maxTaxid)]
       in (case getOrgsFromSilvaFasta fastaFile of
             Inl e \<Rightarrow> Some (lg1, Inl e)
           | Inr recs \<Rightarrow>
      (let (h1, taxmap) = foldl silva_record (h0, []) recs;
           lg2 = lg1 @ [(INFO, ''Added nodes from fasta file for a total of '' @
                               str_nat (length h1))]
       in (case h1 of
             [] \<Rightarrow> Some (lg2, Inl StopIteration)
           | _ # _ \<Rightarrow>
      (case getRootNode h1 0 of
         None \<Rightarrow> None
       | Some rootNode \<Rightarrow>
      (let (maxTaxid', h2) = foldl silva_fix (maxTaxid, h1) (treeGen h1 rootNode);
           lg3 = lg2 @ [(INFO, ''Cleaning up taxmap'')]
       in Some (lg3,
                Inr (rootNode, h2,
                     map (\<lambda>(hitid, node). (hitid, id_n (h2 ! node))) taxmap)))))))))))"

section \<open>Notions used in the statements\<close>

text \<open>
  The test of line 124, and the two parts a header line is cut into by lines 125
  and 126: the hit id and the lineage names.
\<close>

definition is_header :: "string \<Rightarrow> bool" where
  "is_header line = (line \<noteq> [] \<and> hd line = CHR ''>'')"

definition pr2_hitid :: "string \<Rightarrow> string" where
  "pr2_hitid line = hd (split (CHR ''|'') (rstrip [NL, CR] (tl line)))"

definition pr2_names :: "string \<Rightarrow> string list" where
  "pr2_names line = tl (split (CHR ''|'') (rstrip [NL, CR] (tl line)))"

text \<open>The node that lines 133 to 136 create under \<open>lastNode\<close>.\<close>

definition pr2_new :: "pr2_state \<Rightarrow> nat \<Rightarrow> string \<Rightarrow> string \<Rightarrow> TaxNode" where
  "pr2_new st l r nm =
     \<lparr>id_n = PyInt (nextId st + 1), parentid = id_n (nodes st ! l), rank = Some r, name = nm,
      parent = Some l, children = [], ncbi_tax_id = None\<rparr>"

text \<open>
  What holds of every state of buildPR2Tree: the root keeps the id \<open>'root'\<close> and the
  node created k-th has the id \<open>idStart + k\<close>; every node but the root has a parent
  created before it; the tables of names hold each node but the root, under its own
  rank and name, and nothing else.
\<close>

definition pr2_ids :: "int \<Rightarrow> pr2_state \<Rightarrow> bool" where
  "pr2_ids n0 st \<longleftrightarrow>
     nodes st \<noteq> [] \<and> id_n (nodes st ! 0) = PyStr ''root'' \<and>
     nextId st = n0 + int (length (nodes st)) - 1 \<and>
     (\<forall>a. 0 < a \<and> a < length (nodes st) \<longrightarrow> id_n (nodes st ! a) = PyInt (n0 + int a))"

definition pr2_links :: "pr2_state \<Rightarrow> bool" where
  "pr2_links st \<longleftrightarrow>
     nodes st \<noteq> [] \<and> parent (nodes st ! 0) = None \<and>
     (\<forall>a. 0 < a \<and> a < length (nodes st) \<longrightarrow> (\<exists>p<a. parent (nodes st ! a) = Some p))"

definition pr2_table :: "pr2_state \<Rightarrow> bool" where
  "pr2_table st \<longleftrightarrow>
     (\<forall>r nm a. taxaByNameAndRank st r nm = Some a \<longrightarrow>
        0 < a \<and> a < length (nodes st) \<and> name (nodes st ! a) = nm \<and>
        rank (nodes st ! a) = Some r) \<and>
     (\<forall>a. 0 < a \<and> a < length (nodes st) \<longrightarrow>
        (\<exists>r. rank (nodes st ! a) = Some r \<and>
             taxaByNameAndRank st r (name (nodes st ! a)) = Some a))"

definition pr2_inv :: "int \<Rightarrow> pr2_state \<Rightarrow> bool" where
  "pr2_inv n0 st \<longleftrightarrow> pr2_ids n0 st \<and> pr2_links st \<and> pr2_table st"

text \<open>
  The parent id of lines 79 to 82 as a value, for a node that is the root or has a
  parent.
\<close>

definition dump_parent_id :: "heap \<Rightarrow> nat \<Rightarrow> nat \<Rightarrow> pyval" where
  "dump_parent_id h rootNode a =
     (if a = rootNode then id_n (h ! rootNode) else id_n (h ! the (parent (h ! a))))"

text \<open>
  The two header lines of the example of the specification, a list of ranks to stand
  for \<open>edl.taxon.ranks\<close>, and the tree that buildSilvaTree builds from the one-row
  table \<open>Archaea; 7 superkingdom\<close>.
\<close>

definition example_pr2 :: "string list" where
  "example_pr2 = [''>A.1.1|Eukaryota|Fungi|Ascomycota'' @ [NL],
                  ''>B.1.1|Eukaryota|Fungi|Basidiomycota'' @ [NL]]"

definition example_ranks :: "string list" where
  "example_ranks = [''superkingdom'', ''kingdom'', ''phylum'', ''class'', ''order'', ''family'',
                    ''genus'', ''species'']"


text \<open>
  The synthetic root of buildSilvaTree is there and has no parent. In buildPR2Tree the
  root has no child as long as it is alone, and afterwards its first child is the node
  created first.
\<close>

definition silva_root :: "heap \<Rightarrow> bool" where
  "silva_root h \<longleftrightarrow> h \<noteq> [] \<and> parent (h ! 0) = None"

definition pr2_first :: "pr2_state \<Rightarrow> bool" where
  "pr2_first st \<longleftrightarrow>
     (length (nodes st) = 1 \<and> children (nodes st ! 0) = []) \<or>
     (1 < length (nodes st) \<and> children (nodes st ! 0) \<noteq> [] \<and>
      hd (children (nodes st ! 0)) = 1)"

text \<open>
  A fasta file with two top-level names, and a rank table with two top-level taxa.
\<close>

definition example_two_roots :: "string list" where
  "example_two_roots = [''>a.1|Alveolata|Ciliophora'' @ [NL], ''>b.1|Rhizaria|Cercozoa'' @ [NL]]"

definition example_table :: "(string \<times> int \<times> string) list" where
  "example_table = [(''Archaea;'', 7, ''superkingdom''), (''Bacteria;'', 3, ''domain'')]"

text \<open>
  The ids of buildSilvaTree. One heap grows into another when the old nodes keep their
  id and external id and the new ones have neither. Before the walk of lines 197 to
  203 no node has an id, and the external ids come from the set \<open>E\<close> of the table's
  ids; no two nodes have the same external id when the table's ids are distinct.
  During the walk, with \<open>M\<close> the largest id of the table and \<open>m\<close> the high-water
  mark: an id a node has is its external id, or lies above \<open>M\<close> and up to \<open>m\<close>,
  and no two nodes without an external id have the same id.
\<close>

definition silva_grows :: "heap \<Rightarrow> heap \<Rightarrow> bool" where
  "silva_grows h h' \<longleftrightarrow>
     length h \<le> length h' \<and>
     (\<forall>i<length h. id_n (h' ! i) = id_n (h ! i) \<and> ncbi_tax_id (h' ! i) = ncbi_tax_id (h ! i)) \<and>
     (\<forall>i. length h \<le> i \<and> i < length h' \<longrightarrow>
          id_n (h' ! i) = PyNone \<and> ncbi_tax_id (h' ! i) = None)"




text \<open>The heap after lines 180 and 181 have set the rank and the external id of a node.\<close>

definition silva_row :: "heap \<Rightarrow> nat \<Rightarrow> string \<Rightarrow> int \<Rightarrow> heap" where
  "silva_row h1 node r t =
     (h1[node := (h1 ! node)\<lparr>rank := Some (rankMapping_get r)\<rparr>])
       [node := ((h1[node := (h1 ! node)\<lparr>rank := Some (rankMapping_get r)\<rparr>]) ! node)
                  \<lparr>ncbi_tax_id := Some t\<rparr>]"

text \<open>
  A rank table with the external ids 5, 12 and 7, and the tree that buildSilvaTree
  builds from it and from one record whose lineage adds a leaf.
\<close>

definition example_ids :: "(string \<times> int \<times> string) list" where
  "example_ids = [(''Bacteria;'', 5, ''domain''), (''Bacteria;Proteobacteria;'', 12, ''phylum''),
                  (''Archaea;'', 7, ''domain'')]"

definition example_ids_heap :: heap where
  "example_ids_heap =
     [\<lparr>id_n = PyInt 13, parentid = PyNone, rank = None, name = [],
               parent = None, children = [1, 3], ncbi_tax_id = None\<rparr>,
            \<lparr>id_n = PyInt 5, parentid = PyNone, rank = Some ''domain'',
               name = ''Bacteria'', parent = Some 0, children = [2],
               ncbi_tax_id = Some 5\<rparr>,
            \<lparr>id_n = PyInt 12, parentid = PyNone, rank = Some ''phylum'',
               name = ''Proteobacteria'', parent = Some 1, children = [4],
               ncbi_tax_id = Some 12\<rparr>,
            \<lparr>id_n = PyInt 7, parentid = PyNone, rank = Some ''domain'',
               name = ''Archaea'', parent = Some 0, children = [],
               ncbi_tax_id = Some 7\<rparr>,
            \<lparr>id_n = PyInt 14, parentid = PyNone, rank = None,
               name = ''Escherichia'', parent = Some 2, children = [],
               ncbi_tax_id = None\<rparr>]"

text \<open>
  The path from the root to a node: the names met on the way, found by following the
  parent links up to the node without a parent. A walk that never ends has no result.
\<close>

partial_function (option) getLineage :: "heap \<Rightarrow> nat \<Rightarrow> string list option" where
  "getLineage h a =
     (case parent (h ! a) of
        None \<Rightarrow> Some []
      | Some p \<Rightarrow> Option.bind (getLineage h p) (\<lambda>xs. Some (xs @ [name (h ! a)])))"

declare getLineage.simps [code]

text \<open>
  The lineage paths that buildPR2Tree inserts, one per header line; the pairs of a
  rank and a name that line 130 forms from them; and their distinct non-empty
  prefixes.
\<close>

definition pr2_paths :: "string list \<Rightarrow> string list list" where
  "pr2_paths ls = map pr2_names (filter is_header ls)"

definition pr2_pairs :: "string list list \<Rightarrow> (string \<times> string) set" where
  "pr2_pairs ps = (\<Union>p\<in>set ps. set (zip ranks p))"

definition prefixes_of :: "string list list \<Rightarrow> string list list" where
  "prefixes_of ps = remdups (concat (map (\<lambda>p. map (\<lambda>i. take (Suc i) p) [0..<length p]) ps))"

text \<open>
  The paths are hierarchical when a name that stands at the same one of the eight
  rank positions in two paths has the same names before it in both.
\<close>

definition pr2_hier :: "string list list \<Rightarrow> bool" where
  "pr2_hier ps \<longleftrightarrow>
     (\<forall>p\<in>set ps. \<forall>q\<in>set ps. \<forall>i.
        i < length p \<and> i < length q \<and> i < length ranks \<and> p ! i = q ! i \<longrightarrow> take i p = take i q)"

text \<open>
  Every entry of the tables of names comes from a pair of the inserted paths; for
  hierarchical paths, the node of an entry lies at the end of the prefix that the
  entry's name closes.
\<close>

definition pr2_from :: "string list list \<Rightarrow> pr2_state \<Rightarrow> bool" where
  "pr2_from ps st \<longleftrightarrow>
     (\<forall>r nm a. taxaByNameAndRank st r nm = Some a \<longrightarrow> (r, nm) \<in> pr2_pairs ps)"

definition pr2_lin :: "string list list \<Rightarrow> pr2_state \<Rightarrow> bool" where
  "pr2_lin ps st \<longleftrightarrow>
     (\<forall>r nm a. taxaByNameAndRank st r nm = Some a \<longrightarrow>
        (\<exists>p\<in>set ps. \<exists>i<length p. i < length ranks \<and> r = ranks ! i \<and> nm = p ! i \<and>
           getLineage (nodes st) a = Some (take (Suc i) p)))"



text \<open>Two header lines in which the name X stands under A and under B.\<close>

definition example_crossed :: "string list" where
  "example_crossed = [''>a|A|X|Z'' @ [NL], ''>b|B|X|W'' @ [NL]]"

text \<open>
  The tree of buildSilvaTree as a trie. \<open>silva_walk\<close> follows a list of names down
  from a node, each name among the children of the node reached so far. The heap is a
  trie when the root is there and has no parent, every other node is found among the
  children of its parent, a node created earlier, under its own name, and the children
  of a node are nodes that have it as parent.
\<close>

fun silva_walk :: "heap \<Rightarrow> nat \<Rightarrow> string list \<Rightarrow> nat option" where
  "silva_walk h cur [] = Some cur"
| "silva_walk h cur (nm # nms) =
     (case find_child h cur nm of None \<Rightarrow> None | Some c \<Rightarrow> silva_walk h c nms)"

definition silva_trie :: "heap \<Rightarrow> bool" where
  "silva_trie h \<longleftrightarrow>
     h \<noteq> [] \<and> parent (h ! 0) = None \<and>
     (\<forall>a. 0 < a \<and> a < length h \<longrightarrow>
        (\<exists>p<a. parent (h ! a) = Some p \<and> find_child h p (name (h ! a)) = Some a)) \<and>
     (\<forall>p<length h. \<forall>c\<in>set (children (h ! p)). c < length h \<and> parent (h ! c) = Some p)"

text \<open>
  One heap keeps another when every child found in the old one is found in the new
  one, the old nodes keep their rank and the new ones have none. Two heaps have the
  same shape when their nodes agree in name, parent and children.
\<close>

definition silva_keeps :: "heap \<Rightarrow> heap \<Rightarrow> bool" where
  "silva_keeps h h' \<longleftrightarrow>
     length h \<le> length h' \<and>
     (\<forall>cur nm c. cur < length h \<and> find_child h cur nm = Some c \<longrightarrow>
        find_child h' cur nm = Some c) \<and>
     (\<forall>a<length h. rank (h' ! a) = rank (h ! a)) \<and>
     (\<forall>a. length h \<le> a \<and> a < length h' \<longrightarrow> rank (h' ! a) = None)"

definition silva_shape :: "heap \<Rightarrow> heap \<Rightarrow> bool" where
  "silva_shape h h' \<longleftrightarrow>
     length h' = length h \<and>
     (\<forall>i<length h. name (h' ! i) = name (h ! i) \<and> parent (h' ! i) = parent (h ! i) \<and>
        children (h' ! i) = children (h ! i))"

text \<open>The tree that addToTreeFromString starts from: an empty tree gets its root.\<close>

definition silva_start :: "heap \<Rightarrow> heap" where
  "silva_start tree = (if tree = [] then [TaxNode_init PyNone PyNone None] else tree)"

text \<open>
  The path that line 179 inserts for a lineage of the table, the last row of the table
  whose lineage gives a path, and the paths that buildSilvaTree inserts: those of the
  rows of the table, then those of the records of the fasta file.
\<close>

definition silva_key :: "string \<Rightarrow> string list" where
  "silva_key lineage = split (CHR '';'') (strip ''; '' lineage)"

definition silva_last_row :: "(string \<times> 'v) list \<Rightarrow> string list \<Rightarrow> (string \<times> 'v) option" where
  "silva_last_row items path = List.find (\<lambda>it. silva_key (fst it) = path) (rev items)"

definition silva_paths :: "(string \<times> int \<times> string) list \<Rightarrow> string list \<Rightarrow> string list list" where
  "silva_paths taxFile fastaFile =
     map (\<lambda>it. silva_key (fst it)) (parseMapFile fst (snd \<circ> snd) taxFile) @
     (case getOrgsFromSilvaFasta fastaFile of
        Inl e \<Rightarrow> []
      | Inr recs \<Rightarrow> map (\<lambda>rc. split (CHR '';'') (snd rc)) recs)"

text \<open>
  What holds of the tree of buildSilvaTree while the paths \<open>ps\<close> are inserted and
  the rows \<open>items\<close> of the table are read: every node but the root lies at the end of
  a non-empty prefix of an inserted path and every inserted path leads to a node; a
  node has the rank, renamed by rankMapping, and the external id of the last row whose
  path leads to it, and neither when there is no such row.
\<close>

definition silva_cov :: "string list list \<Rightarrow> heap \<Rightarrow> bool" where
  "silva_cov ps h \<longleftrightarrow>
     (\<forall>a. 0 < a \<and> a < length h \<longrightarrow>
        (\<exists>p\<in>set ps. \<exists>i<length p. silva_walk h 0 (take (Suc i) p) = Some a)) \<and>
     (\<forall>p\<in>set ps. \<exists>a. silva_walk h 0 p = Some a)"

definition silva_rows :: "(string \<times> int) list \<Rightarrow> (string \<times> string) list \<Rightarrow> heap \<Rightarrow> bool" where
  "silva_rows m items h \<longleftrightarrow>
     (\<forall>a<length h. \<forall>xs. silva_walk h 0 xs = Some a \<longrightarrow>
        rank (h ! a) = map_option (\<lambda>it. rankMapping_get (snd it)) (silva_last_row items xs) \<and>
        ncbi_tax_id (h ! a) = Option.bind (silva_last_row items xs) (\<lambda>it. map_of m (fst it)))"

definition silva_inv ::
  "(string \<times> int) list \<Rightarrow> (string \<times> string) list \<Rightarrow> string list list \<Rightarrow> heap \<Rightarrow> bool" where
  "silva_inv m items ps h \<longleftrightarrow>
     silva_trie h \<and> silva_cov ps h \<and> silva_rows m items h \<and>
     (\<forall>it\<in>set items. silva_key (fst it) \<in> set ps)"




section \<open>Strings and folds\<close>

lemma split_not_Nil: "split sep s \<noteq> []"
  by (induction s) (auto split: list.splits)

lemma split_no_sep: "sep \<notin> set s \<Longrightarrow> split sep s = [s]"
  by (induction s) auto

lemma set_rstrip: "set (rstrip cs s) \<subseteq> set s"
proof -
  have "set (dropWhile (\<lambda>c. c \<in> set cs) (rev s)) \<subseteq> set (rev s)"
    by (rule set_dropWhileD[THEN subsetI])
  then show ?thesis by (simp add: rstrip_def)
qed

lemma foldl_invariant:
  assumes "P s" and "\<And>s x. P s \<Longrightarrow> x \<in> set xs \<Longrightarrow> P (f s x)"
  shows "P (foldl f s xs)"
  using assms by (induction xs arbitrary: s) auto

section \<open>The lines of buildPR2Tree\<close>

lemma pr2_line_header:
  assumes "is_header line"
  shows "pr2_line fo st line =
           (let (st1, lastNode) = foldl pr2_taxon (st, 0) (zip ranks (pr2_names line));
                st2 = st1\<lparr>taxMap := AList.update (pr2_hitid line)
                                       (id_n (nodes st1 ! lastNode)) (taxMap st1)\<rparr>
            in if fo
               then st2\<lparr>outhandle := outhandle st2 @
                          [CHR ''>'' # pr2_hitid line @ '' '' @
                           join '';'' (pr2_names line) @ [NL]]\<rparr>
               else st2)"
proof -
  obtain h ns where sp: "split (CHR ''|'') (rstrip [NL, CR] (tl line)) = h # ns"
    using split_not_Nil[of "CHR ''|''" "rstrip [NL, CR] (tl line)"]
    by (auto simp: neq_Nil_conv)
  then have eq: "pr2_hitid line = h" "pr2_names line = ns"
    by (simp_all add: pr2_names_def pr2_hitid_def)
  show ?thesis unfolding eq using assms sp
    by (simp add: pr2_line_def is_header_def Let_def)
qed

lemma pr2_line_not_header:
  assumes "\<not> is_header line"
  shows "pr2_line fo st line = (if fo then st\<lparr>outhandle := outhandle st @ [line]\<rparr> else st)"
  using assms by (auto simp add: pr2_line_def is_header_def)

lemma pr2_names_no_bar:
  assumes "CHR ''|'' \<notin> set line"
  shows "pr2_names line = []" "pr2_hitid line = rstrip [NL, CR] (tl line)"
proof -
  have "CHR ''|'' \<notin> set (tl line)" using assms by (cases line) auto
  then have "CHR ''|'' \<notin> set (rstrip [NL, CR] (tl line))" using set_rstrip by blast
  then have "split (CHR ''|'') (rstrip [NL, CR] (tl line)) = [rstrip [NL, CR] (tl line)]"
    by (rule split_no_sep)
  then show "pr2_names line = []" "pr2_hitid line = rstrip [NL, CR] (tl line)"
    by (simp_all add: pr2_names_def pr2_hitid_def)
qed

lemma pr2_line_no_names:
  assumes "is_header line \<longrightarrow> pr2_names line = []"
  shows "nodes (pr2_line fo st line) = nodes st"
    and "nextId (pr2_line fo st line) = nextId st"
    and "taxaByNameAndRank (pr2_line fo st line) = taxaByNameAndRank st"
    and "prTree (pr2_line fo st line) = prTree st"
  using assms
  by (cases "is_header line"; simp add: pr2_line_header pr2_line_not_header Let_def)+

lemma pr2_lines_no_names:
  assumes "\<forall>l\<in>set ls. is_header l \<longrightarrow> pr2_names l = []"
  shows "nodes (foldl (pr2_line fo) st ls) = nodes st"
  by (rule foldl_invariant[where P="\<lambda>s. nodes s = nodes st"])
     (use assms in \<open>simp_all add: pr2_line_no_names\<close>)

section \<open>One name of a lineage\<close>

lemma setParent_new:
  assumes "l < length h"
  shows "length (setParent (length h) l (h @ [nw])) = Suc (length h)"
    and "setParent (length h) l (h @ [nw]) ! length h = nw\<lparr>parent := Some l\<rparr>"
    and "setParent (length h) l (h @ [nw]) ! l = (h ! l)\<lparr>children := children (h ! l) @ [length h]\<rparr>"
    and "\<And>i. i < length h \<Longrightarrow> i \<noteq> l \<Longrightarrow> setParent (length h) l (h @ [nw]) ! i = h ! i"
  using assms by (simp_all add: setParent_def Let_def nth_append nth_list_update)

lemma pr2_taxon_old:
  assumes "taxaByNameAndRank st r nm = Some a"
  shows "pr2_taxon (st, l) (r, nm) = (st, a)"
  using assms by simp

lemma pr2_taxon_new:
  assumes "taxaByNameAndRank st r nm = None" and "l < length (nodes st)"
  shows "snd (pr2_taxon (st, l) (r, nm)) = length (nodes st)"
    and "nextId (fst (pr2_taxon (st, l) (r, nm))) = nextId st + 1"
    and "length (nodes (fst (pr2_taxon (st, l) (r, nm)))) = Suc (length (nodes st))"
    and "nodes (fst (pr2_taxon (st, l) (r, nm))) ! length (nodes st) = pr2_new st l r nm"
    and "nodes (fst (pr2_taxon (st, l) (r, nm))) ! l =
           (nodes st ! l)\<lparr>children := children (nodes st ! l) @ [length (nodes st)]\<rparr>"
    and "\<And>i. i < length (nodes st) \<Longrightarrow> i \<noteq> l \<Longrightarrow>
           nodes (fst (pr2_taxon (st, l) (r, nm))) ! i = nodes st ! i"
    and "taxaByNameAndRank (fst (pr2_taxon (st, l) (r, nm))) =
           (taxaByNameAndRank st)(r := (taxaByNameAndRank st r)(nm \<mapsto> length (nodes st)))"
    and "taxMap (fst (pr2_taxon (st, l) (r, nm))) = taxMap st"
    and "outhandle (fst (pr2_taxon (st, l) (r, nm))) = outhandle st"
  using assms by (simp_all add: Let_def setParent_new TaxNode_init_def pr2_new_def)

declare pr2_taxon.simps [simp del]

lemma pr2_taxon_new_fields:
  assumes "taxaByNameAndRank st r nm = None" and "l < length (nodes st)" and "i < length (nodes st)"
  shows "id_n (nodes (fst (pr2_taxon (st, l) (r, nm))) ! i) = id_n (nodes st ! i)"
    and "name (nodes (fst (pr2_taxon (st, l) (r, nm))) ! i) = name (nodes st ! i)"
    and "rank (nodes (fst (pr2_taxon (st, l) (r, nm))) ! i) = rank (nodes st ! i)"
    and "parent (nodes (fst (pr2_taxon (st, l) (r, nm))) ! i) = parent (nodes st ! i)"
    and "children (nodes (fst (pr2_taxon (st, l) (r, nm))) ! i) =
           (if i = l then children (nodes st ! i) @ [length (nodes st)] else children (nodes st ! i))"
  using pr2_taxon_new(5,6)[OF assms(1,2)] assms(3) by (cases "i = l"; simp)+

lemma pr2_ids_taxon:
  assumes "pr2_ids n0 st" and "l < length (nodes st)"
  shows "pr2_ids n0 (fst (pr2_taxon (st, l) (r, nm)))"
proof (cases "taxaByNameAndRank st r nm")
  case (Some a)
  then show ?thesis using assms by (simp add: pr2_taxon_old)
next
  case None
  note new = pr2_taxon_new[OF None assms(2)] and old = pr2_taxon_new_fields[OF None assms(2)]
  let ?st = "fst (pr2_taxon (st, l) (r, nm))"
  have len: "length (nodes ?st) = Suc (length (nodes st))" by (rule new(3))
  have pos: "0 < length (nodes st)" using assms(2) by (cases "nodes st") simp_all
  have "\<And>a. 0 < a \<Longrightarrow> a < length (nodes ?st) \<Longrightarrow> id_n (nodes ?st ! a) = PyInt (n0 + int a)"
  proof -
    fix a assume a: "0 < a" "a < length (nodes ?st)"
    show "id_n (nodes ?st ! a) = PyInt (n0 + int a)"
    proof (cases "a = length (nodes st)")
      case True
      then show ?thesis using new(4) assms(1) by (simp add: pr2_new_def pr2_ids_def)
    next
      case False
      then have "a < length (nodes st)" using a len by simp
      then show ?thesis using old(1)[of a] assms(1) a by (simp add: pr2_ids_def)
    qed
  qed
  moreover have "id_n (nodes ?st ! 0) = PyStr ''root''"
    using old(1)[OF pos] assms(1) by (simp add: pr2_ids_def)
  moreover have "nextId ?st = n0 + int (length (nodes ?st)) - 1"
    using new(2) len assms(1) by (simp add: pr2_ids_def)
  moreover have "nodes ?st \<noteq> []" using len by auto
  ultimately show ?thesis unfolding pr2_ids_def by blast
qed

lemma pr2_links_taxon:
  assumes "pr2_links st" and "l < length (nodes st)"
  shows "pr2_links (fst (pr2_taxon (st, l) (r, nm)))"
proof (cases "taxaByNameAndRank st r nm")
  case (Some a)
  then show ?thesis using assms by (simp add: pr2_taxon_old)
next
  case None
  note new = pr2_taxon_new[OF None assms(2)] and old = pr2_taxon_new_fields[OF None assms(2)]
  let ?st = "fst (pr2_taxon (st, l) (r, nm))"
  have len: "length (nodes ?st) = Suc (length (nodes st))" by (rule new(3))
  have pos: "0 < length (nodes st)" using assms(2) by (cases "nodes st") simp_all
  have "\<And>a. 0 < a \<Longrightarrow> a < length (nodes ?st) \<Longrightarrow> \<exists>p<a. parent (nodes ?st ! a) = Some p"
  proof -
    fix a assume a: "0 < a" "a < length (nodes ?st)"
    show "\<exists>p<a. parent (nodes ?st ! a) = Some p"
    proof (cases "a = length (nodes st)")
      case True
      then show ?thesis using new(4) assms(2) by (simp add: pr2_new_def)
    next
      case False
      then have "a < length (nodes st)" using a len by simp
      then show ?thesis using old(4)[of a] assms(1) a by (simp add: pr2_links_def)
    qed
  qed
  moreover have "parent (nodes ?st ! 0) = None"
    using old(4)[OF pos] assms(1) by (simp add: pr2_links_def)
  moreover have "nodes ?st \<noteq> []" using len by auto
  ultimately show ?thesis unfolding pr2_links_def by blast
qed

lemma pr2_table_taxon:
  assumes "pr2_table st" and "l < length (nodes st)"
  shows "pr2_table (fst (pr2_taxon (st, l) (r, nm)))"
    and "snd (pr2_taxon (st, l) (r, nm)) < length (nodes (fst (pr2_taxon (st, l) (r, nm))))"
    and "0 < snd (pr2_taxon (st, l) (r, nm))"
proof -
  let ?st = "fst (pr2_taxon (st, l) (r, nm))"
  show "pr2_table ?st"
  proof (cases "taxaByNameAndRank st r nm")
    case (Some a)
    then show ?thesis using assms by (simp add: pr2_taxon_old)
  next
    case None
    note new = pr2_taxon_new[OF None assms(2)] and old = pr2_taxon_new_fields[OF None assms(2)]
    have len: "length (nodes ?st) = Suc (length (nodes st))" by (rule new(3))
    have pos: "0 < length (nodes st)" using assms(2) by (cases "nodes st") simp_all
    have A: "\<And>r' nm' a. taxaByNameAndRank ?st r' nm' = Some a \<Longrightarrow>
               0 < a \<and> a < length (nodes ?st) \<and> name (nodes ?st ! a) = nm' \<and>
               rank (nodes ?st ! a) = Some r'"
    proof -
      fix r' nm' a assume t: "taxaByNameAndRank ?st r' nm' = Some a"
      show "0 < a \<and> a < length (nodes ?st) \<and> name (nodes ?st ! a) = nm' \<and>
               rank (nodes ?st ! a) = Some r'"
      proof (cases "r' = r \<and> nm' = nm")
        case True
        then have "a = length (nodes st)" using t new(7) by simp
        then show ?thesis using True new(4) len pos by (simp add: pr2_new_def)
      next
        case False
        then have "taxaByNameAndRank st r' nm' = Some a" using t new(7) by (auto split: if_splits)
        then have "0 < a \<and> a < length (nodes st) \<and> name (nodes st ! a) = nm' \<and>
               rank (nodes st ! a) = Some r'" using assms(1) unfolding pr2_table_def by blast
        then show ?thesis using old(2,3)[of a] len by simp
      qed
    qed
    have B: "\<And>a. 0 < a \<Longrightarrow> a < length (nodes ?st) \<Longrightarrow>
               \<exists>r'. rank (nodes ?st ! a) = Some r' \<and>
                    taxaByNameAndRank ?st r' (name (nodes ?st ! a)) = Some a"
    proof -
      fix a assume a: "0 < a" "a < length (nodes ?st)"
      show "\<exists>r'. rank (nodes ?st ! a) = Some r' \<and>
                    taxaByNameAndRank ?st r' (name (nodes ?st ! a)) = Some a"
      proof (cases "a = length (nodes st)")
        case True
        then show ?thesis using new(4,7) by (simp add: pr2_new_def)
      next
        case False
        then have lt: "a < length (nodes st)" using a len by simp
        then obtain r' where r': "rank (nodes st ! a) = Some r'"
            "taxaByNameAndRank st r' (name (nodes st ! a)) = Some a"
          using assms(1) a unfolding pr2_table_def by blast
        have "\<not> (r' = r \<and> name (nodes st ! a) = nm)" using r'(2) None by auto
        then have "taxaByNameAndRank ?st r' (name (nodes st ! a)) = Some a"
          using r'(2) new(7) by auto
        then show ?thesis using old(2,3)[OF lt] r'(1) by simp
      qed
    qed
    show ?thesis unfolding pr2_table_def using A B by blast
  qed
  have "snd (pr2_taxon (st, l) (r, nm)) < length (nodes ?st) \<and>
        0 < snd (pr2_taxon (st, l) (r, nm))"
  proof (cases "taxaByNameAndRank st r nm")
    case (Some a)
    then show ?thesis
      using assms(1) unfolding pr2_table_def by (auto simp: pr2_taxon_old)
  next
    case None
    have pos: "0 < length (nodes st)" using assms(2) by (cases "nodes st") simp_all
    show ?thesis
      using pr2_taxon_new(1,3)[OF None assms(2)] pos by simp
  qed
  then show "snd (pr2_taxon (st, l) (r, nm)) < length (nodes ?st)"
       "0 < snd (pr2_taxon (st, l) (r, nm))" by simp_all
qed


section \<open>Whole runs of buildPR2Tree\<close>

lemma pr2_inv_taxon:
  assumes "pr2_inv n0 st" and "l < length (nodes st)"
  shows "pr2_inv n0 (fst (pr2_taxon (st, l) x))"
    and "snd (pr2_taxon (st, l) x) < length (nodes (fst (pr2_taxon (st, l) x)))"
  using assms pr2_ids_taxon pr2_links_taxon pr2_table_taxon(1,2)
  by (cases x; simp add: pr2_inv_def)+

lemma pr2_inv_path:
  assumes "pr2_inv n0 st" and "l < length (nodes st)"
  shows "pr2_inv n0 (fst (foldl pr2_taxon (st, l) xs)) \<and>
         snd (foldl pr2_taxon (st, l) xs) < length (nodes (fst (foldl pr2_taxon (st, l) xs)))"
  using assms
proof (induction xs arbitrary: st l)
  case Nil
  then show ?case by simp
next
  case (Cons x xs)
  obtain st' l' where step: "pr2_taxon (st, l) x = (st', l')" by (cases "pr2_taxon (st, l) x")
  have "pr2_inv n0 st'" "l' < length (nodes st')"
    using pr2_inv_taxon[OF Cons.prems, of x] step by simp_all
  then show ?case using Cons.IH[of st' l'] step by simp
qed

lemma pr2_inv_upd [simp]:
  "pr2_inv n0 (st\<lparr>taxMap := m\<rparr>) = pr2_inv n0 st"
  "pr2_inv n0 (st\<lparr>outhandle := out\<rparr>) = pr2_inv n0 st"
  by (simp_all add: pr2_inv_def pr2_ids_def pr2_links_def pr2_table_def)

lemma pr2_inv_nonempty: "pr2_inv n0 st \<Longrightarrow> 0 < length (nodes st)"
  by (simp add: pr2_inv_def pr2_ids_def)

lemma pr2_inv_line:
  assumes "pr2_inv n0 st"
  shows "pr2_inv n0 (pr2_line fo st line)"
proof (cases "is_header line")
  case True
  obtain st' l' where f: "foldl pr2_taxon (st, 0) (zip ranks (pr2_names line)) = (st', l')"
    by (cases "foldl pr2_taxon (st, 0) (zip ranks (pr2_names line))")
  have "pr2_inv n0 st'"
    using pr2_inv_path[OF assms pr2_inv_nonempty[OF assms], of "zip ranks (pr2_names line)"] f
    by simp
  then show ?thesis using True f by (simp add: pr2_line_header Let_def)
next
  case False
  then show ?thesis using assms by (simp add: pr2_line_not_header)
qed

lemma pr2_inv_init: "pr2_inv n (pr2_init n)"
  by (auto simp add: pr2_inv_def pr2_ids_def pr2_links_def pr2_table_def pr2_init_def
        TaxNode_init_def)

lemma pr2_inv_lines: "pr2_inv n (pr2_lines fo n ls)"
  unfolding pr2_lines_def
  by (rule foldl_invariant[where P="pr2_inv n"]) (simp_all add: pr2_inv_init pr2_inv_line)

text \<open>An entry of the tables is never replaced or removed.\<close>

lemma pr2_taxon_mono:
  assumes "taxaByNameAndRank st r nm = Some a"
  shows "taxaByNameAndRank (fst (pr2_taxon (st, l) x)) r nm = Some a"
  using assms by (cases x) (auto simp: pr2_taxon.simps Let_def split: option.splits)

lemma pr2_taxon_known:
  "taxaByNameAndRank (fst (pr2_taxon (st, l) (r, nm))) r nm \<noteq> None"
  by (auto simp: pr2_taxon.simps Let_def split: option.splits)

lemma pr2_path_mono:
  assumes "taxaByNameAndRank st r nm = Some a"
  shows "taxaByNameAndRank (fst (foldl pr2_taxon (st, l) xs)) r nm = Some a"
  using assms
proof (induction xs arbitrary: st l)
  case Nil
  then show ?case by simp
next
  case (Cons x xs)
  obtain st' l' where step: "pr2_taxon (st, l) x = (st', l')" by (cases "pr2_taxon (st, l) x")
  have "taxaByNameAndRank st' r nm = Some a" using pr2_taxon_mono[OF Cons.prems, of l x] step by simp
  then show ?case using Cons.IH[of st' l'] step by simp
qed

lemma pr2_path_known:
  assumes "(r, nm) \<in> set xs"
  shows "taxaByNameAndRank (fst (foldl pr2_taxon (st, l) xs)) r nm \<noteq> None"
  using assms
proof (induction xs arbitrary: st l)
  case Nil
  then show ?case by simp
next
  case (Cons x xs)
  obtain st' l' where step: "pr2_taxon (st, l) x = (st', l')" by (cases "pr2_taxon (st, l) x")
  show ?case
  proof (cases "(r, nm) \<in> set xs")
    case True
    then show ?thesis using Cons.IH[of st' l'] step by simp
  next
    case False
    then have x: "x = (r, nm)" using Cons.prems by simp
    then obtain a where "taxaByNameAndRank st' r nm = Some a"
      using pr2_taxon_known[of st l r nm] step by auto
    then show ?thesis using pr2_path_mono[of st' r nm a l' xs] step by simp
  qed
qed

lemma pr2_path_same:
  assumes "\<forall>(r, nm)\<in>set xs. taxaByNameAndRank st r nm \<noteq> None"
  shows "fst (foldl pr2_taxon (st, l) xs) = st"
  using assms
proof (induction xs arbitrary: l)
  case Nil
  then show ?case by simp
next
  case (Cons x xs)
  obtain r nm where x: "x = (r, nm)" by (cases x)
  then obtain a where "taxaByNameAndRank st r nm = Some a" using Cons.prems by auto
  then have "pr2_taxon (st, l) x = (st, a)" using x by (simp add: pr2_taxon_old)
  then show ?case using Cons by simp
qed

lemma pr2_line_mono:
  assumes "taxaByNameAndRank st r nm = Some a"
  shows "taxaByNameAndRank (pr2_line fo st line) r nm = Some a"
proof (cases "is_header line")
  case True
  obtain st' l' where f: "foldl pr2_taxon (st, 0) (zip ranks (pr2_names line)) = (st', l')"
    by (cases "foldl pr2_taxon (st, 0) (zip ranks (pr2_names line))")
  have "taxaByNameAndRank st' r nm = Some a"
    using pr2_path_mono[OF assms, of 0 "zip ranks (pr2_names line)"] f by simp
  then show ?thesis using True f by (simp add: pr2_line_header Let_def)
next
  case False
  then show ?thesis using assms by (simp add: pr2_line_not_header)
qed

lemma pr2_line_known:
  assumes "is_header line" and "(r, nm) \<in> set (zip ranks (pr2_names line))"
  shows "taxaByNameAndRank (pr2_line fo st line) r nm \<noteq> None"
proof -
  obtain st' l' where f: "foldl pr2_taxon (st, 0) (zip ranks (pr2_names line)) = (st', l')"
    by (cases "foldl pr2_taxon (st, 0) (zip ranks (pr2_names line))")
  have "taxaByNameAndRank st' r nm \<noteq> None"
    using pr2_path_known[OF assms(2), of st 0] f by simp
  then show ?thesis using assms(1) f by (simp add: pr2_line_header Let_def)
qed

lemma pr2_foldl_lines_mono:
  assumes "taxaByNameAndRank st r nm \<noteq> None"
  shows "taxaByNameAndRank (foldl (pr2_line fo) st ls) r nm \<noteq> None"
  by (rule foldl_invariant[where P="\<lambda>s. taxaByNameAndRank s r nm \<noteq> None"])
     (use assms pr2_line_mono in auto)

lemma pr2_lines_known:
  assumes "line \<in> set ls" and "is_header line" and "(r, nm) \<in> set (zip ranks (pr2_names line))"
  shows "taxaByNameAndRank (pr2_lines fo n ls) r nm \<noteq> None"
proof -
  obtain xs ys where ls: "ls = xs @ line # ys" using assms(1) by (auto simp: in_set_conv_decomp)
  have "taxaByNameAndRank (pr2_line fo (foldl (pr2_line fo) (pr2_init n) xs) line) r nm \<noteq> None"
    by (rule pr2_line_known[OF assms(2,3)])
  then show ?thesis unfolding pr2_lines_def ls
    using pr2_foldl_lines_mono by simp
qed

lemma pr2_line_known_same:
  assumes "is_header line"
    and "\<forall>(r, nm)\<in>set (zip ranks (pr2_names line)). taxaByNameAndRank st r nm \<noteq> None"
  shows "nextId (pr2_line fo st line) = nextId st" and "nodes (pr2_line fo st line) = nodes st"
    and "taxaByNameAndRank (pr2_line fo st line) = taxaByNameAndRank st"
proof -
  obtain st' l' where f: "foldl pr2_taxon (st, 0) (zip ranks (pr2_names line)) = (st', l')"
    by (cases "foldl pr2_taxon (st, 0) (zip ranks (pr2_names line))")
  have "st' = st" using pr2_path_same[OF assms(2), of 0] f by simp
  then show "nextId (pr2_line fo st line) = nextId st" "nodes (pr2_line fo st line) = nodes st"
     "taxaByNameAndRank (pr2_line fo st line) = taxaByNameAndRank st"
    using assms(1) f by (simp_all add: pr2_line_header Let_def)
qed

lemma zip_append_subset: "set (zip xs ys) \<subseteq> set (zip xs (ys @ us))"
proof (induction xs arbitrary: ys)
  case Nil
  then show ?case by simp
next
  case (Cons x xs)
  then show ?case by (cases ys) auto
qed

lemma zip_prefix_subset:
  assumes "prefix ys zs"
  shows "set (zip xs ys) \<subseteq> set (zip xs zs)"
  using assms zip_append_subset by (auto simp: prefix_def)

section \<open>The dump files and the fasta reader\<close>

lemma dump_parent_Inr:
  assumes "a = rootNode \<or> parent (h ! a) \<noteq> None"
  shows "dump_parent h rootNode a = Inr (dump_parent_id h rootNode a)"
  using assms by (auto simp: dump_parent_def dump_parent_id_def)

lemma dump_parent_Inr_iff:
  "dump_parent h rootNode a = Inr p \<longleftrightarrow>
     (a = rootNode \<or> parent (h ! a) \<noteq> None) \<and> p = dump_parent_id h rootNode a"
  by (auto simp: dump_parent_def dump_parent_id_def split: option.splits)

lemma writeDumpFiles_lines:
  assumes "writeDumpFiles tr h rootNode gen (ns0, ms0) = Inr (ns, ms)"
  shows "ns = ns0 @ map (\<lambda>a. node_line (id_n (h ! a)) (dump_parent_id h rootNode a)
                                  (dump_rank tr (rank (h ! a)))) gen \<and>
         ms = ms0 @ map (\<lambda>a. name_line (id_n (h ! a)) (name (h ! a))) gen"
  using assms
proof (induction gen arbitrary: ns0 ms0)
  case Nil
  then show ?case by simp
next
  case (Cons a gen)
  from Cons.prems obtain p where p: "dump_parent h rootNode a = Inr p"
    and rest: "writeDumpFiles tr h rootNode gen
                 (ns0 @ [node_line (id_n (h ! a)) p (dump_rank tr (rank (h ! a)))],
                  ms0 @ [name_line (id_n (h ! a)) (name (h ! a))]) = Inr (ns, ms)"
    by (auto simp: Let_def split: sum.splits)
  have "p = dump_parent_id h rootNode a" using p by (simp add: dump_parent_Inr_iff)
  then show ?case using Cons.IH[OF rest] by simp
qed

lemma writeDumpFiles_total:
  assumes "\<forall>a\<in>set gen. a = rootNode \<or> parent (h ! a) \<noteq> None"
  shows "\<exists>ns ms. writeDumpFiles tr h rootNode gen (ns0, ms0) = Inr (ns, ms)"
  using assms
proof (induction gen arbitrary: ns0 ms0)
  case Nil
  then show ?case by simp
next
  case (Cons a gen)
  then show ?case by (simp add: dump_parent_Inr Let_def)
qed

lemma example_pr2_heap:
  "nodes (pr2_lines False 0 example_pr2) =
     [\<lparr>id_n = PyStr ''root'', parentid = PyNone, rank = None,
              name = [], parent = None, children = [1], ncbi_tax_id = None\<rparr>,
           \<lparr>id_n = PyInt 1, parentid = PyStr ''root'',
              rank = Some ''domain'', name = ''Eukaryota'', parent = Some 0,
              children = [2], ncbi_tax_id = None\<rparr>,
           \<lparr>id_n = PyInt 2, parentid = PyInt 1, rank = Some ''kingdom'',
              name = ''Fungi'', parent = Some 1, children = [3, 4],
              ncbi_tax_id = None\<rparr>,
           \<lparr>id_n = PyInt 3, parentid = PyInt 2, rank = Some ''phylum'',
              name = ''Ascomycota'', parent = Some 2, children = [],
              ncbi_tax_id = None\<rparr>,
           \<lparr>id_n = PyInt 4, parentid = PyInt 2, rank = Some ''phylum'',
              name = ''Basidiomycota'', parent = Some 2, children = [],
              ncbi_tax_id = None\<rparr>]"
  by code_simp

lemma getOrgs_malformed:
  assumes "l \<in> set ls" "is_header l" "length (split_ws1 (strip_ws (tl l))) \<noteq> 2"
  shows "getOrgsFromSilvaFasta ls = Inl ValueError"
  using assms
proof (induction ls)
  case Nil
  then show ?case by simp
next
  case (Cons x xs)
  show ?case
  proof (cases "x = l")
    case True
    then show ?thesis using Cons.prems(2,3)
      by (auto simp: is_header_def split: list.splits)
  next
    case False
    then have "getOrgsFromSilvaFasta xs = Inl ValueError" using Cons by simp
    then show ?thesis by (auto split: list.splits)
  qed
qed

lemma getOrgs_filter: "getOrgsFromSilvaFasta (filter is_header ls) = getOrgsFromSilvaFasta ls"
  by (induction ls) (auto simp: is_header_def split: list.splits sum.splits)

section \<open>The root of the two trees\<close>

lemma setParent_length [simp]: "length (setParent a p h) = length h"
  by (simp add: setParent_def Let_def)

lemma setParent_fields:
  assumes "i < length h"
  shows "id_n (setParent a p h ! i) = id_n (h ! i)"
    and "ncbi_tax_id (setParent a p h ! i) = ncbi_tax_id (h ! i)"
    and "name (setParent a p h ! i) = name (h ! i)"
    and "rank (setParent a p h ! i) = rank (h ! i)"
    and "parent (setParent a p h ! i) = (if i = a then Some p else parent (h ! i))"
proof -
  define h1 where "h1 = h[a := (h ! a)\<lparr>parent := Some p\<rparr>]"
  have l1: "length h1 = length h" by (simp add: h1_def)
  have s: "setParent a p h = h1[p := (h1 ! p)\<lparr>children := children (h1 ! p) @ [a]\<rparr>]"
    by (simp add: setParent_def h1_def Let_def)
  have f1: "id_n (h1 ! i) = id_n (h ! i)" "ncbi_tax_id (h1 ! i) = ncbi_tax_id (h ! i)"
    "name (h1 ! i) = name (h ! i)" "rank (h1 ! i) = rank (h ! i)"
    "parent (h1 ! i) = (if i = a then Some p else parent (h ! i))"
    using assms by (cases "i = a"; simp add: h1_def)+
  show "id_n (setParent a p h ! i) = id_n (h ! i)"
    and "ncbi_tax_id (setParent a p h ! i) = ncbi_tax_id (h ! i)"
    and "name (setParent a p h ! i) = name (h ! i)"
    and "rank (setParent a p h ! i) = rank (h ! i)"
    and "parent (setParent a p h ! i) = (if i = a then Some p else parent (h ! i))"
    unfolding s using assms l1 f1 by (cases "i = p"; simp)+
qed

lemma setParent_Nil [simp]: "setParent a p h = [] \<longleftrightarrow> h = []"
  by (metis setParent_length length_0_conv)

lemma silva_taxon_root:
  assumes "silva_root h"
  shows "silva_root (fst (silva_taxon (h, cur) nm))"
proof (cases "find_child h cur nm")
  case None
  have "0 < length (h @ [x])" for x by simp
  then show ?thesis using assms None
    by (auto simp: silva_root_def Let_def setParent_fields nth_append)
next
  case (Some c)
  then show ?thesis using assms by simp
qed

lemma silva_path_root:
  assumes "silva_root h"
  shows "silva_root (fst (foldl silva_taxon (h, cur) nms))"
  using assms
proof (induction nms arbitrary: h cur)
  case Nil
  then show ?case by simp
next
  case (Cons x xs)
  obtain h' c' where s: "silva_taxon (h, cur) x = (h', c')" by (cases "silva_taxon (h, cur) x")
  then have "silva_root h'" using silva_taxon_root[OF Cons.prems, of cur x] by simp
  then show ?case using Cons.IH[of h' c'] s by simp
qed

lemma addToTree_root:
  assumes "tree = [] \<or> silva_root tree"
  shows "silva_root (fst (addToTreeFromString s tree))"
proof -
  have "silva_root (if tree = [] then [TaxNode_init PyNone PyNone None] else tree)"
    using assms by (auto simp: silva_root_def TaxNode_init_def)
  then show ?thesis unfolding addToTreeFromString_def Let_def by (rule silva_path_root)
qed

lemma silva_root_update:
  assumes "silva_root h" and "parent x = parent (h ! a)"
  shows "silva_root (h[a := x])"
  using assms by (cases "a < length h"; cases a; auto simp: silva_root_def)

lemma silva_table_root:
  assumes "silva_table m items h = Inr h'" and "h = [] \<or> silva_root h"
  shows "items = [] \<and> h' = h \<or> silva_root h'"
  using assms
proof (induction items arbitrary: h)
  case Nil
  then show ?case by simp
next
  case (Cons it items)
  obtain lineage r where it: "it = (lineage, r)" by (cases it)
  obtain h1 node where a: "addToTreeFromString (strip ''; '' lineage) h = (h1, node)"
    by (cases "addToTreeFromString (strip ''; '' lineage) h")
  have r1: "silva_root h1" using addToTree_root[OF Cons.prems(2), of "strip ''; '' lineage"] a by simp
  from Cons.prems(1) obtain t where t: "map_of m lineage = Some t"
    and rest: "silva_table m items
        ((h1[node := (h1 ! node)\<lparr>rank := Some (rankMapping_get r)\<rparr>])
           [node := ((h1[node := (h1 ! node)\<lparr>rank := Some (rankMapping_get r)\<rparr>]) ! node)
                      \<lparr>ncbi_tax_id := Some t\<rparr>]) = Inr h'"
    unfolding it by (auto simp: a Let_def split: option.splits)
  let ?h2 = "h1[node := (h1 ! node)\<lparr>rank := Some (rankMapping_get r)\<rparr>]"
  have "silva_root ?h2" by (rule silva_root_update[OF r1]) simp
  then have "silva_root (?h2[node := (?h2 ! node)\<lparr>ncbi_tax_id := Some t\<rparr>])"
    by (rule silva_root_update) simp
  then show ?case using Cons.IH[OF rest] by auto
qed

lemma silva_record_root:
  assumes "h = [] \<or> silva_root h"
  shows "silva_root (fst (silva_record (h, tm) rc))"
  using addToTree_root[OF assms] by (cases rc) (auto simp: case_prod_unfold Let_def)

lemma silva_records_root:
  assumes "silva_root h"
  shows "silva_root (fst (foldl silva_record (h, tm) recs))"
  using assms
proof (induction recs arbitrary: h tm)
  case Nil
  then show ?case by simp
next
  case (Cons x xs)
  obtain h' tm' where s: "silva_record (h, tm) x = (h', tm')" by (cases "silva_record (h, tm) x")
  then have "silva_root h'" using silva_record_root[of h tm x] Cons.prems by simp
  then show ?case using Cons.IH[of h' tm'] s by simp
qed

lemma silva_fix_root:
  assumes "silva_root h"
  shows "silva_root (snd (silva_fix (m, h) a))"
  using assms by (auto simp: silva_root_update split: pyval.splits option.splits)

lemma silva_fixes_root:
  assumes "silva_root h"
  shows "silva_root (snd (foldl silva_fix (m, h) gen))"
  using assms
proof (induction gen arbitrary: m h)
  case Nil
  then show ?case by simp
next
  case (Cons x xs)
  obtain m' h' where s: "silva_fix (m, h) x = (m', h')" by (cases "silva_fix (m, h) x")
  then have "silva_root h'" using silva_fix_root[OF Cons.prems, of m x] by simp
  then show ?case using Cons.IH[of h' m'] s by simp
qed

lemma getRootNode_root: "silva_root h \<Longrightarrow> getRootNode h 0 = Some 0"
  by (subst getRootNode.simps) (simp add: silva_root_def)

lemma pr2_first_taxon:
  assumes "pr2_first st" and "l < length (nodes st)"
  shows "pr2_first (fst (pr2_taxon (st, l) (r, nm)))"
proof (cases "taxaByNameAndRank st r nm")
  case (Some a)
  then show ?thesis using assms by (simp add: pr2_taxon_old)
next
  case None
  note new = pr2_taxon_new[OF None assms(2)] and old = pr2_taxon_new_fields[OF None assms(2)]
  have pos: "0 < length (nodes st)" using assms(2) by (cases "nodes st") simp_all
  let ?st = "fst (pr2_taxon (st, l) (r, nm))"
  have c: "children (nodes ?st ! 0) =
       (if 0 = l then children (nodes st ! 0) @ [length (nodes st)] else children (nodes st ! 0))"
    by (rule old(5)[OF pos])
  show ?thesis
  proof (cases "length (nodes st) = 1")
    case True
    then have "l = 0" using assms(2) by simp
    then show ?thesis using c True assms(1) new(3) by (simp add: pr2_first_def)
  next
    case False
    then have "1 < length (nodes st) \<and> children (nodes st ! 0) \<noteq> [] \<and>
      hd (children (nodes st ! 0)) = 1" using assms(1) by (simp add: pr2_first_def)
    then show ?thesis using c new(3) pos by (auto simp add: pr2_first_def)
  qed
qed

lemma pr2_first_path:
  assumes "pr2_inv n0 st" and "pr2_first st" and "l < length (nodes st)"
  shows "pr2_first (fst (foldl pr2_taxon (st, l) xs))"
  using assms
proof (induction xs arbitrary: st l)
  case Nil
  then show ?case by simp
next
  case (Cons x xs)
  obtain st' l' where step: "pr2_taxon (st, l) x = (st', l')" by (cases "pr2_taxon (st, l) x")
  have "pr2_inv n0 st'" "l' < length (nodes st')"
    using pr2_inv_taxon[OF Cons.prems(1,3), of x] step by simp_all
  moreover have "pr2_first st'"
  proof -
    obtain r nm where x: "x = (r, nm)" by (cases x)
    show ?thesis using pr2_first_taxon[OF Cons.prems(2,3), of r nm] step x by simp
  qed
  ultimately show ?case using Cons.IH[of st' l'] step by simp
qed

lemma pr2_first_upd [simp]:
  "pr2_first (st\<lparr>taxMap := m\<rparr>) = pr2_first st"
  "pr2_first (st\<lparr>outhandle := out\<rparr>) = pr2_first st"
  by (simp_all add: pr2_first_def)

lemma pr2_first_line:
  assumes "pr2_inv n0 st" and "pr2_first st"
  shows "pr2_first (pr2_line fo st line)"
proof (cases "is_header line")
  case True
  obtain st' l' where f: "foldl pr2_taxon (st, 0) (zip ranks (pr2_names line)) = (st', l')"
    by (cases "foldl pr2_taxon (st, 0) (zip ranks (pr2_names line))")
  have "pr2_first st'"
    using pr2_first_path[OF assms pr2_inv_nonempty[OF assms(1)], of "zip ranks (pr2_names line)"] f
    by simp
  then show ?thesis using True f by (simp add: pr2_line_header Let_def)
next
  case False
  then show ?thesis using assms by (simp add: pr2_line_not_header)
qed

lemma pr2_first_lines: "pr2_first (pr2_lines fo n ls)"
proof -
  have i: "pr2_first (pr2_init n)"
    by (simp add: pr2_first_def pr2_init_def TaxNode_init_def)
  have "pr2_inv n (foldl (pr2_line fo) (pr2_init n) ls) \<and>
        pr2_first (foldl (pr2_line fo) (pr2_init n) ls)"
    by (rule foldl_invariant[where P="\<lambda>s. pr2_inv n s \<and> pr2_first s"])
       (use i pr2_inv_init pr2_inv_line pr2_first_line in blast)+
  then show ?thesis by (simp add: pr2_lines_def)
qed

lemma silva_no_warning_log:
  assumes "buildSilvaTree treeGen taxFile fastaFile = Some (lg, res)"
  shows "WARNING \<notin> fst ` set lg"
  using assms
  by (auto simp: buildSilvaTree_def Let_def case_prod_unfold
           split: sum.splits list.splits option.splits)

lemma silva_build_root:
  "\<exists>lg res. buildSilvaTree treeGen taxFile fastaFile = Some (lg, res) \<and>
     (\<forall>r h tm. res = Inr (r, h, tm) \<longrightarrow> r = 0 \<and> silva_root h)"
proof -
  let ?m = "parseMapFile fst (fst \<circ> snd) taxFile"
  let ?rm = "parseMapFile fst (snd \<circ> snd) taxFile"
  show ?thesis
  proof (cases "max_list (map snd ?m)")
    case (Inl e)
    then show ?thesis by (simp add: buildSilvaTree_def)
  next
    case (Inr M)
    show ?thesis
    proof (cases "silva_table ?m ?rm []")
      case (Inl e)
      then show ?thesis using Inr by (simp add: buildSilvaTree_def)
    next
      case h0: (Inr h0)
      have r0: "h0 = [] \<or> silva_root h0" using silva_table_root[OF h0] by auto
      show ?thesis
      proof (cases "getOrgsFromSilvaFasta fastaFile")
        case (Inl e)
        then show ?thesis using Inr h0 by (simp add: buildSilvaTree_def Let_def)
      next
        case recs: (Inr recs)
        obtain h1 tm1 where f: "foldl silva_record (h0, []) recs = (h1, tm1)"
          by (cases "foldl silva_record (h0, []) recs")
        show ?thesis
        proof (cases h1)
          case Nil
          then show ?thesis using Inr h0 recs f by (simp add: buildSilvaTree_def Let_def)
        next
          case (Cons x xs)
          have r1: "silva_root h1"
          proof (cases recs)
            case Nil
            then show ?thesis using f r0 Cons by auto
          next
            case (Cons rc rcs)
            obtain h' tm' where s: "silva_record (h0, []) rc = (h', tm')"
              by (cases "silva_record (h0, []) rc")
            have "silva_root h'" using silva_record_root[OF r0, of "[]" rc] s by simp
            then show ?thesis using silva_records_root[of h' tm' rcs] f s Cons by simp
          qed
          have g: "getRootNode h1 0 = Some 0" by (rule getRootNode_root[OF r1])
          obtain m2 h2 where fx: "foldl silva_fix (M, h1) (treeGen h1 0) = (m2, h2)"
            by (cases "foldl silva_fix (M, h1) (treeGen h1 0)")
          have "silva_root h2" using silva_fixes_root[OF r1, of M "treeGen h1 0"] fx by simp
          then show ?thesis using Inr h0 recs f Cons g fx
            by (simp add: buildSilvaTree_def Let_def)
        qed
      qed
    qed
  qed
qed

lemma example_table_run:
  "buildSilvaTree treeGenerator example_table [] =
     Some ([(INFO, ''Built tree of 3 taxa with the largest ID of 7''),
            (INFO, ''Added nodes from fasta file for a total of 3''),
            (INFO, ''Cleaning up taxmap'')],
           Inr (0,
                [\<lparr>id_n = PyInt 8, parentid = PyNone, rank = None, name = [],
                   parent = None, children = [1, 2], ncbi_tax_id = None\<rparr>,
                 \<lparr>id_n = PyInt 7, parentid = PyNone, rank = Some ''major_clade'',
                   name = ''Archaea'', parent = Some 0, children = [],
                   ncbi_tax_id = Some 7\<rparr>,
                 \<lparr>id_n = PyInt 3, parentid = PyNone, rank = Some ''domain'',
                   name = ''Bacteria'', parent = Some 0, children = [],
                   ncbi_tax_id = Some 3\<rparr>],
                []))"
  by code_simp

section \<open>The ids of buildSilvaTree\<close>

lemma silva_grows_refl: "silva_grows h h"
  by (auto simp add: silva_grows_def)

lemma silva_grows_trans:
  assumes "silva_grows h1 h2" and "silva_grows h2 h3"
  shows "silva_grows h1 h3"
  unfolding silva_grows_def
proof (intro conjI allI impI)
  show "length h1 \<le> length h3" using assms by (simp add: silva_grows_def)
next
  fix i assume "i < length h1"
  then show "id_n (h3 ! i) = id_n (h1 ! i)" "ncbi_tax_id (h3 ! i) = ncbi_tax_id (h1 ! i)"
    using assms by (simp_all add: silva_grows_def)
next
  fix i assume i: "length h1 \<le> i \<and> i < length h3"
  show "id_n (h3 ! i) = PyNone" "ncbi_tax_id (h3 ! i) = None"
  proof -
    have "id_n (h3 ! i) = PyNone \<and> ncbi_tax_id (h3 ! i) = None"
    proof (cases "i < length h2")
      case True
      then show ?thesis using assms i by (simp add: silva_grows_def)
    next
      case False
      then show ?thesis using assms(2) i by (simp add: silva_grows_def)
    qed
    then show "id_n (h3 ! i) = PyNone" "ncbi_tax_id (h3 ! i) = None" by simp_all
  qed
qed



lemma silva_taxon_grows: "silva_grows h (fst (silva_taxon (h, cur) nm))"
proof (cases "find_child h cur nm")
  case (Some c)
  then show ?thesis by (simp add: silva_grows_refl)
next
  case None
  let ?h = "h @ [(TaxNode_init PyNone PyNone None)\<lparr>name := nm\<rparr>]"
  have "id_n (setParent (length h) cur ?h ! i) = id_n (?h ! i) \<and>
        ncbi_tax_id (setParent (length h) cur ?h ! i) = ncbi_tax_id (?h ! i)"
    if "i < length ?h" for i using setParent_fields(1,2)[OF that] by simp
  then show ?thesis using None
    by (auto simp: silva_grows_def Let_def nth_append TaxNode_init_def less_Suc_eq)
qed

lemma silva_path_grows: "silva_grows h (fst (foldl silva_taxon (h, cur) nms))"
proof (induction nms arbitrary: h cur)
  case Nil
  then show ?case by (simp add: silva_grows_refl)
next
  case (Cons x xs)
  obtain h' c' where s: "silva_taxon (h, cur) x = (h', c')" by (cases "silva_taxon (h, cur) x")
  have "silva_grows h h'" using silva_taxon_grows[of h cur x] s by simp
  then show ?case using Cons[of h' c'] s silva_grows_trans by fastforce
qed



lemma silva_row_update:
  shows "length (silva_row h1 node r t) = length h1"
    and "i < length h1 \<Longrightarrow> id_n (silva_row h1 node r t ! i) = id_n (h1 ! i)"
    and "i < length h1 \<Longrightarrow>
           ncbi_tax_id (silva_row h1 node r t ! i) =
             (if i = node then Some t else ncbi_tax_id (h1 ! i))"
    and "i < length h1 \<Longrightarrow> parent (silva_row h1 node r t ! i) = parent (h1 ! i)"
  by (cases "i = node"; simp add: silva_row_def)+

lemma silva_table_step:
  assumes "silva_table m ((lineage, r) # items) h = Inr h'"
  obtains h1 node t where "addToTreeFromString (strip ''; '' lineage) h = (h1, node)"
    and "map_of m lineage = Some t"
    and "silva_table m items
           (silva_row h1 node r t) = Inr h'"
proof -
  obtain h1 node where a: "addToTreeFromString (strip ''; '' lineage) h = (h1, node)"
    by (cases "addToTreeFromString (strip ''; '' lineage) h")
  from assms obtain t where "map_of m lineage = Some t"
    and "silva_table m items
        (silva_row h1 node r t) = Inr h'"
    by (auto simp: a Let_def silva_row_def split: option.splits)
  then show ?thesis using a that by blast
qed



lemma silva_fix_cases:
  obtains (skip) i where "id_n (h ! a) = PyInt i" "silva_fix (m, h) a = (m, h)"
  | (ext) t where "\<forall>i. id_n (h ! a) \<noteq> PyInt i" "ncbi_tax_id (h ! a) = Some t"
      "silva_fix (m, h) a = (m, h[a := (h ! a)\<lparr>id_n := PyInt t\<rparr>])"
  | (fallback) "\<forall>i. id_n (h ! a) \<noteq> PyInt i" "ncbi_tax_id (h ! a) = None"
      "silva_fix (m, h) a = (m + 1, h[a := (h ! a)\<lparr>id_n := PyInt (m + 1)\<rparr>])"
  by (cases "id_n (h ! a)"; cases "ncbi_tax_id (h ! a)"; simp)

declare silva_fix.simps [simp del]

lemma silva_fix_same:
  "length (snd (silva_fix (m, h) a)) = length h"
  "i < length h \<Longrightarrow> ncbi_tax_id (snd (silva_fix (m, h) a) ! i) = ncbi_tax_id (h ! i)"
  by (cases rule: silva_fix_cases[where h=h and a=a and m=m]; cases "i = a"; simp)+

lemma silva_fixes_same:
  "length (snd (foldl silva_fix (m, h) gen)) = length h \<and>
   (\<forall>i<length h. ncbi_tax_id (snd (foldl silva_fix (m, h) gen) ! i) = ncbi_tax_id (h ! i))"
proof (induction gen arbitrary: m h)
  case Nil
  then show ?case by simp
next
  case (Cons x xs)
  obtain m' h' where s: "silva_fix (m, h) x = (m', h')" by (cases "silva_fix (m, h) x")
  have "length h' = length h" "\<forall>i<length h. ncbi_tax_id (h' ! i) = ncbi_tax_id (h ! i)"
    using silva_fix_same[where m=m and h=h and a=x] s by simp_all
  then show ?case using Cons[of m' h'] s by simp
qed

















lemma example_ids_run:
  "buildSilvaTree treeGenerator example_ids
     [''>r1 Bacteria;Proteobacteria;Escherichia'' @ [NL], ''ACGT'' @ [NL]] =
   Some ([(INFO, ''Built tree of 4 taxa with the largest ID of 12''),
          (INFO, ''Added nodes from fasta file for a total of 5''),
          (INFO, ''Cleaning up taxmap'')],
         Inr (0, example_ids_heap, [(''r1'', PyInt 14)]))"
  by code_simp

section \<open>Paths from the root in buildPR2Tree\<close>

lemma getLineage_root: "parent (h ! a) = None \<Longrightarrow> getLineage h a = Some []"
  by (subst getLineage.simps) simp

lemma getLineage_child:
  "parent (h ! a) = Some p \<Longrightarrow> getLineage h p = Some xs \<Longrightarrow>
   getLineage h a = Some (xs @ [name (h ! a)])"
  by (subst getLineage.simps) simp

lemma getLineage_cong:
  assumes "\<forall>b<n. parent (h' ! b) = parent (h ! b) \<and> name (h' ! b) = name (h ! b)"
    and "\<forall>b<n. \<forall>p. parent (h ! b) = Some p \<longrightarrow> p < b"
    and "b < n"
  shows "getLineage h' b = getLineage h b"
  using assms(3)
proof (induction b rule: less_induct)
  case (less b)
  show ?case
  proof (cases "parent (h ! b)")
    case None
    then have "parent (h' ! b) = None" using assms(1) less.prems by simp
    then show ?thesis using None by (simp add: getLineage_root)
  next
    case (Some p)
    then have p: "p < b" using assms(2) less.prems by blast
    have e: "parent (h' ! b) = Some p" "name (h' ! b) = name (h ! b)"
      using assms(1) less.prems Some by simp_all
    have ih: "getLineage h' p = getLineage h p" using less.IH[OF p] p less.prems by simp
    show ?thesis
      by (subst getLineage.simps, subst (2) getLineage.simps) (simp add: e Some ih)
  qed
qed

lemma pr2_from_taxon:
  assumes "pr2_from ps st" and "(r, nm) \<in> pr2_pairs ps"
  shows "pr2_from ps (fst (pr2_taxon (st, l) (r, nm)))"
  using assms unfolding pr2_from_def
  by (auto simp: pr2_taxon.simps Let_def split: option.splits if_splits)

lemma pr2_from_path:
  assumes "pr2_from ps st" and "set xs \<subseteq> pr2_pairs ps"
  shows "pr2_from ps (fst (foldl pr2_taxon (st, l) xs))"
  using assms
proof (induction xs arbitrary: st l)
  case Nil
  then show ?case by simp
next
  case (Cons x xs)
  obtain r nm where x: "x = (r, nm)" by (cases x)
  obtain st' l' where step: "pr2_taxon (st, l) x = (st', l')" by (cases "pr2_taxon (st, l) x")
  have "pr2_from ps st'" using pr2_from_taxon[OF Cons.prems(1), of r nm l] Cons.prems(2) x step
    by simp
  then show ?case using Cons.IH[of st' l'] Cons.prems(2) step by simp
qed

lemma pr2_from_upd [simp]:
  "pr2_from ps (st\<lparr>taxMap := m\<rparr>) = pr2_from ps st"
  "pr2_from ps (st\<lparr>outhandle := out\<rparr>) = pr2_from ps st"
  by (simp_all add: pr2_from_def)

lemma pr2_from_line:
  assumes "pr2_from ps st" and "is_header line \<longrightarrow> pr2_names line \<in> set ps"
  shows "pr2_from ps (pr2_line fo st line)"
proof (cases "is_header line")
  case True
  obtain st' l' where f: "foldl pr2_taxon (st, 0) (zip ranks (pr2_names line)) = (st', l')"
    by (cases "foldl pr2_taxon (st, 0) (zip ranks (pr2_names line))")
  have "set (zip ranks (pr2_names line)) \<subseteq> pr2_pairs ps"
    using assms(2) True by (auto simp: pr2_pairs_def)
  then have "pr2_from ps st'" using pr2_from_path[OF assms(1), of _ 0] f by fastforce
  then show ?thesis using True f by (simp add: pr2_line_header Let_def)
next
  case False
  then show ?thesis using assms by (simp add: pr2_line_not_header)
qed

lemma pr2_from_lines: "pr2_from (pr2_paths ls) (pr2_lines fo n ls)"
  unfolding pr2_lines_def
proof (rule foldl_invariant[where P="pr2_from (pr2_paths ls)"])
  show "pr2_from (pr2_paths ls) (pr2_init n)" by (simp add: pr2_from_def pr2_init_def)
next
  fix s x assume "pr2_from (pr2_paths ls) s" "x \<in> set ls"
  then show "pr2_from (pr2_paths ls) (pr2_line fo s x)"
    by (intro pr2_from_line) (auto simp: pr2_paths_def)
qed

lemma ranks_distinct: "distinct ranks"
  by (simp add: ranks_def)

lemma pr2_links_parent:
  assumes "pr2_links st" and "b < length (nodes st)" and "parent (nodes st ! b) = Some p"
  shows "p < b"
proof (cases "b = 0")
  case True
  then show ?thesis using assms by (simp add: pr2_links_def)
next
  case False
  then obtain p' where "p' < b" "parent (nodes st ! b) = Some p'"
    using assms(1,2) unfolding pr2_links_def by blast
  then show ?thesis using assms(3) by simp
qed

lemma pr2_taxon_new_lineage:
  assumes "pr2_inv n0 st" and "taxaByNameAndRank st r nm = None" and "l < length (nodes st)"
    and "b < length (nodes st)"
  shows "getLineage (nodes (fst (pr2_taxon (st, l) (r, nm)))) b = getLineage (nodes st) b"
proof (rule getLineage_cong[where n="length (nodes st)"])
  show "\<forall>b<length (nodes st).
          parent (nodes (fst (pr2_taxon (st, l) (r, nm))) ! b) = parent (nodes st ! b) \<and>
          name (nodes (fst (pr2_taxon (st, l) (r, nm))) ! b) = name (nodes st ! b)"
    using pr2_taxon_new_fields(2,4)[OF assms(2,3)] by simp
  show "\<forall>b<length (nodes st). \<forall>p. parent (nodes st ! b) = Some p \<longrightarrow> p < b"
    using pr2_links_parent assms(1) unfolding pr2_inv_def by blast
  show "b < length (nodes st)" by (rule assms(4))
qed

lemma pr2_lin_taxon:
  assumes inv: "pr2_inv n0 st" and lin: "pr2_lin ps st" and hier: "pr2_hier ps"
    and q: "q \<in> set ps" and j: "j < length q" "j < length ranks"
    and l: "l < length (nodes st)" and gl: "getLineage (nodes st) l = Some (take j q)"
  shows "pr2_lin ps (fst (pr2_taxon (st, l) (ranks ! j, q ! j))) \<and>
         getLineage (nodes (fst (pr2_taxon (st, l) (ranks ! j, q ! j))))
           (snd (pr2_taxon (st, l) (ranks ! j, q ! j))) = Some (take (Suc j) q)"
proof (cases "taxaByNameAndRank st (ranks ! j) (q ! j)")
  case (Some a)
  from lin Some obtain p i where p: "p \<in> set ps" and i: "i < length p" "i < length ranks"
    and r: "ranks ! j = ranks ! i" and nm: "q ! j = p ! i"
    and ga: "getLineage (nodes st) a = Some (take (Suc i) p)"
    unfolding pr2_lin_def by blast
  have ij: "i = j" using r i(2) j(2) ranks_distinct by (simp add: nth_eq_iff_index_eq)
  have "take j p = take j q" using hier p q i j nm ij unfolding pr2_hier_def by metis
  then have "take (Suc j) p = take (Suc j) q"
    using i(1) j(1) nm ij by (simp add: take_Suc_conv_app_nth)
  then show ?thesis using Some lin ga ij by (simp add: pr2_taxon_old)
next
  case None
  note new = pr2_taxon_new[OF None l] and old = pr2_taxon_new_lineage[OF inv None l]
  let ?st = "fst (pr2_taxon (st, l) (ranks ! j, q ! j))"
  let ?a = "length (nodes st)"
  have tab: "pr2_table st" using inv by (simp add: pr2_inv_def)
  have pa: "parent (nodes ?st ! ?a) = Some l" "name (nodes ?st ! ?a) = q ! j"
    using new(4) by (simp_all add: pr2_new_def)
  have "getLineage (nodes ?st) l = Some (take j q)" using old[OF l] gl by simp
  then have "getLineage (nodes ?st) ?a = Some (take j q @ [q ! j])"
    using getLineage_child[OF pa(1)] pa(2) by simp
  then have ga: "getLineage (nodes ?st) ?a = Some (take (Suc j) q)"
    using j(1) by (simp add: take_Suc_conv_app_nth)
  have "pr2_lin ps ?st" unfolding pr2_lin_def
  proof (intro allI impI)
    fix r nm b assume t: "taxaByNameAndRank ?st r nm = Some b"
    show "\<exists>p\<in>set ps. \<exists>i<length p. i < length ranks \<and> r = ranks ! i \<and> nm = p ! i \<and>
           getLineage (nodes ?st) b = Some (take (Suc i) p)"
    proof (cases "r = ranks ! j \<and> nm = q ! j")
      case True
      then have "b = ?a" using t new(7) by simp
      then show ?thesis using True q j ga by blast
    next
      case False
      then have tb: "taxaByNameAndRank st r nm = Some b" using t new(7) by (auto split: if_splits)
      then have "b < length (nodes st)" using tab unfolding pr2_table_def by blast
      then have "getLineage (nodes ?st) b = getLineage (nodes st) b" by (rule old)
      then show ?thesis using lin tb unfolding pr2_lin_def by simp
    qed
  qed
  then show ?thesis using ga new(1) by simp
qed

lemma pr2_lin_path:
  assumes hier: "pr2_hier ps" and q: "q \<in> set ps"
  shows "pr2_inv n0 st \<Longrightarrow> pr2_lin ps st \<Longrightarrow> l < length (nodes st) \<Longrightarrow>
         getLineage (nodes st) l = Some (take j q) \<Longrightarrow> j \<le> length q \<Longrightarrow> j \<le> length ranks \<Longrightarrow>
         pr2_lin ps (fst (foldl pr2_taxon (st, l) (zip (drop j ranks) (drop j q)))) \<and>
         getLineage (nodes (fst (foldl pr2_taxon (st, l) (zip (drop j ranks) (drop j q)))))
           (snd (foldl pr2_taxon (st, l) (zip (drop j ranks) (drop j q)))) =
           Some (take (length ranks) q)"
proof (induction "length q - j" arbitrary: st l j)
  case 0
  then have "j = length q" by simp
  then show ?case using 0 by simp
next
  case (Suc k)
  then have jq: "j < length q" by simp
  show ?case
  proof (cases "j < length ranks")
    case False
    then have "j = length ranks" using Suc.prems(6) by simp
    then show ?thesis using Suc.prems by simp
  next
    case True
    obtain st' l' where step: "pr2_taxon (st, l) (ranks ! j, q ! j) = (st', l')"
      by (cases "pr2_taxon (st, l) (ranks ! j, q ! j)")
    have z: "zip (drop j ranks) (drop j q) =
               (ranks ! j, q ! j) # zip (drop (Suc j) ranks) (drop (Suc j) q)"
      using jq True by (simp add: Cons_nth_drop_Suc[symmetric])
    have s: "pr2_lin ps st'" "getLineage (nodes st') l' = Some (take (Suc j) q)"
      using pr2_lin_taxon[OF Suc.prems(1,2) hier q jq True Suc.prems(3,4)] step by simp_all
    have i: "pr2_inv n0 st'" "l' < length (nodes st')"
      using pr2_inv_taxon[OF Suc.prems(1,3), of "(ranks ! j, q ! j)"] step by simp_all
    have k: "k = length q - Suc j" using Suc.hyps(2) by simp
    show ?thesis
      using Suc.hyps(1)[OF k i(1) s(1) i(2) s(2)] jq True step z by simp
  qed
qed

lemma pr2_inv_root_lineage:
  assumes "pr2_inv n0 st"
  shows "getLineage (nodes st) 0 = Some []"
  using assms by (intro getLineage_root) (simp add: pr2_inv_def pr2_links_def)

lemma pr2_lin_upd [simp]:
  "pr2_lin ps (st\<lparr>taxMap := m\<rparr>) = pr2_lin ps st"
  "pr2_lin ps (st\<lparr>outhandle := out\<rparr>) = pr2_lin ps st"
  by (simp_all add: pr2_lin_def)

lemma pr2_lin_line:
  assumes "pr2_hier ps" and "pr2_inv n0 st" and "pr2_lin ps st"
    and "is_header line \<longrightarrow> pr2_names line \<in> set ps"
  shows "pr2_lin ps (pr2_line fo st line)"
proof (cases "is_header line")
  case True
  obtain st' l' where f: "foldl pr2_taxon (st, 0) (zip ranks (pr2_names line)) = (st', l')"
    by (cases "foldl pr2_taxon (st, 0) (zip ranks (pr2_names line))")
  have q: "pr2_names line \<in> set ps" using assms(4) True by simp
  have "pr2_lin ps st'"
    using pr2_lin_path[OF assms(1) q assms(2,3) pr2_inv_nonempty[OF assms(2)], of 0]
      pr2_inv_root_lineage[OF assms(2)] f by simp
  then show ?thesis using True f by (simp add: pr2_line_header Let_def)
next
  case False
  then show ?thesis using assms by (simp add: pr2_line_not_header)
qed

lemma pr2_lin_lines:
  assumes "pr2_hier (pr2_paths ls)"
  shows "pr2_lin (pr2_paths ls) (pr2_lines fo n ls)"
proof -
  have "pr2_inv n (foldl (pr2_line fo) (pr2_init n) ls) \<and>
        pr2_lin (pr2_paths ls) (foldl (pr2_line fo) (pr2_init n) ls)"
  proof (rule foldl_invariant[where P="\<lambda>s. pr2_inv n s \<and> pr2_lin (pr2_paths ls) s"])
    show "pr2_inv n (pr2_init n) \<and> pr2_lin (pr2_paths ls) (pr2_init n)"
      by (simp add: pr2_inv_init) (simp add: pr2_lin_def pr2_init_def)
  next
    fix s x assume a: "pr2_inv n s \<and> pr2_lin (pr2_paths ls) s" "x \<in> set ls"
    then have "is_header x \<longrightarrow> pr2_names x \<in> set (pr2_paths ls)" by (auto simp: pr2_paths_def)
    then show "pr2_inv n (pr2_line fo s x) \<and> pr2_lin (pr2_paths ls) (pr2_line fo s x)"
      using a pr2_inv_line pr2_lin_line[OF assms] by blast
  qed
  then show ?thesis by (simp add: pr2_lines_def)
qed

lemma set_prefixes_of:
  "set (prefixes_of ps) = {take (Suc i) p | p i. p \<in> set ps \<and> i < length p}"
  unfolding prefixes_of_def by auto blast

lemma set_prefixes_of_take:
  "set (prefixes_of (map (take n) ps)) =
     {take (Suc i) p | p i. p \<in> set ps \<and> i < length p \<and> i < n}"
proof (intro set_eqI iffI)
  fix x assume "x \<in> set (prefixes_of (map (take n) ps))"
  then obtain p' i where p': "p' \<in> set (map (take n) ps)" and i: "i < length p'"
    and x: "x = take (Suc i) p'" unfolding set_prefixes_of by blast
  then obtain p where p: "p \<in> set ps" "p' = take n p" by auto
  have "i < length p" "i < n" using i p(2) by simp_all
  moreover have "x = take (Suc i) p" using x p(2) \<open>i < n\<close> by (simp add: min_def)
  ultimately show "x \<in> {take (Suc i) p | p i. p \<in> set ps \<and> i < length p \<and> i < n}"
    using p(1) by blast
next
  fix x assume "x \<in> {take (Suc i) p | p i. p \<in> set ps \<and> i < length p \<and> i < n}"
  then obtain p i where p: "p \<in> set ps" and i: "i < length p" "i < n" and x: "x = take (Suc i) p"
    by blast
  have "take n p \<in> set (map (take n) ps)" using p by simp
  moreover have "i < length (take n p)" using i by simp
  moreover have "x = take (Suc i) (take n p)" using x i(2) by (simp add: min_def)
  ultimately show "x \<in> set (prefixes_of (map (take n) ps))" unfolding set_prefixes_of by blast
qed

lemma pr2_pairs_known:
  assumes "(r, nm) \<in> pr2_pairs (pr2_paths ls)"
  shows "taxaByNameAndRank (pr2_lines fo n ls) r nm \<noteq> None"
proof -
  from assms obtain line where "line \<in> set ls" "is_header line"
    "(r, nm) \<in> set (zip ranks (pr2_names line))"
    by (auto simp: pr2_pairs_def pr2_paths_def)
  then show ?thesis by (rule pr2_lines_known)
qed

lemma pr2_tableD:
  assumes "pr2_table st"
  shows "\<And>r nm a. taxaByNameAndRank st r nm = Some a \<Longrightarrow>
           0 < a \<and> a < length (nodes st) \<and> name (nodes st ! a) = nm \<and>
           rank (nodes st ! a) = Some r"
    and "\<And>a. 0 < a \<Longrightarrow> a < length (nodes st) \<Longrightarrow>
           \<exists>r. rank (nodes st ! a) = Some r \<and>
               taxaByNameAndRank st r (name (nodes st ! a)) = Some a"
  using assms unfolding pr2_table_def by blast+

lemma pr2_pairs_bij:
  "bij_betw (\<lambda>a. (the (rank (nodes (pr2_lines fo n ls) ! a)), name (nodes (pr2_lines fo n ls) ! a)))
     {1..<length (nodes (pr2_lines fo n ls))} (pr2_pairs (pr2_paths ls))"
proof (rule bij_betw_imageI)
  let ?st = "pr2_lines fo n ls"
  let ?f = "\<lambda>a. (the (rank (nodes ?st ! a)), name (nodes ?st ! a))"
  have tab: "pr2_table ?st" using pr2_inv_lines[of n fo ls] by (simp add: pr2_inv_def)
  note T = pr2_tableD[OF tab]
  have ent: "taxaByNameAndRank ?st (fst (?f a)) (snd (?f a)) = Some a"
    if "a \<in> {1..<length (nodes ?st)}" for a
  proof -
    have "0 < a" "a < length (nodes ?st)" using that by auto
    then obtain r where "rank (nodes ?st ! a) = Some r"
      "taxaByNameAndRank ?st r (name (nodes ?st ! a)) = Some a"
      using T(2)[of a] by blast
    then show ?thesis by simp
  qed
  show "inj_on ?f {1..<length (nodes ?st)}"
  proof (rule inj_onI)
    fix a b assume a: "a \<in> {1..<length (nodes ?st)}" and b: "b \<in> {1..<length (nodes ?st)}"
      and e: "?f a = ?f b"
    have "Some a = taxaByNameAndRank ?st (fst (?f a)) (snd (?f a))" using ent[OF a] by simp
    also have "\<dots> = taxaByNameAndRank ?st (fst (?f b)) (snd (?f b))" using e by simp
    also have "\<dots> = Some b" using ent[OF b] by simp
    finally show "a = b" by simp
  qed
  show "?f ` {1..<length (nodes ?st)} = pr2_pairs (pr2_paths ls)"
  proof (intro set_eqI iffI)
    fix x assume "x \<in> ?f ` {1..<length (nodes ?st)}"
    then obtain a where a: "a \<in> {1..<length (nodes ?st)}" and x: "x = ?f a" by blast
    have "(fst (?f a), snd (?f a)) \<in> pr2_pairs (pr2_paths ls)"
      using pr2_from_lines[of ls fo n] ent[OF a] unfolding pr2_from_def by blast
    then show "x \<in> pr2_pairs (pr2_paths ls)" using x by simp
  next
    fix x assume x: "x \<in> pr2_pairs (pr2_paths ls)"
    obtain r nm where rn: "x = (r, nm)" by (cases x)
    then obtain a where t: "taxaByNameAndRank ?st r nm = Some a"
      using pr2_pairs_known[of r nm ls fo n] x by auto
    have "0 < a \<and> a < length (nodes ?st) \<and> name (nodes ?st ! a) = nm \<and>
           rank (nodes ?st ! a) = Some r" by (rule T(1)[OF t])
    then have "a \<in> {1..<length (nodes ?st)}" "?f a = x" using rn by auto
    then show "x \<in> ?f ` {1..<length (nodes ?st)}" by blast
  qed
qed

lemma pr2_lin_nodes:
  assumes "pr2_hier (pr2_paths ls)" and "0 < a" and "a < length (nodes (pr2_lines fo n ls))"
  obtains p i where "p \<in> set (pr2_paths ls)" "i < length p" "i < length ranks"
    "taxaByNameAndRank (pr2_lines fo n ls) (ranks ! i) (p ! i) = Some a"
    "getLineage (nodes (pr2_lines fo n ls)) a = Some (take (Suc i) p)"
proof -
  let ?st = "pr2_lines fo n ls"
  have tab: "pr2_table ?st" using pr2_inv_lines[of n fo ls] by (simp add: pr2_inv_def)
  obtain r where r: "taxaByNameAndRank ?st r (name (nodes ?st ! a)) = Some a"
    using pr2_tableD(2)[OF tab assms(2,3)] by blast
  from pr2_lin_lines[OF assms(1), of fo n] r
  obtain p i where "p \<in> set (pr2_paths ls)" "i < length p" "i < length ranks"
    "r = ranks ! i" "name (nodes ?st ! a) = p ! i"
    "getLineage (nodes ?st) a = Some (take (Suc i) p)"
    unfolding pr2_lin_def by blast
  then show ?thesis using that r by simp
qed

lemma pr2_prefix_node:
  assumes hier: "pr2_hier (pr2_paths ls)" and p: "p \<in> set (pr2_paths ls)"
    and i: "i < length p" "i < length ranks"
  obtains a where "0 < a" "a < length (nodes (pr2_lines fo n ls))"
    "taxaByNameAndRank (pr2_lines fo n ls) (ranks ! i) (p ! i) = Some a"
    "getLineage (nodes (pr2_lines fo n ls)) a = Some (take (Suc i) p)"
proof -
  let ?st = "pr2_lines fo n ls"
  have tab: "pr2_table ?st" using pr2_inv_lines[of n fo ls] by (simp add: pr2_inv_def)
  have "(ranks ! i, p ! i) \<in> set (zip ranks p)" using i by (auto simp: set_zip)
  then have "(ranks ! i, p ! i) \<in> pr2_pairs (pr2_paths ls)" using p by (auto simp: pr2_pairs_def)
  then obtain a where t: "taxaByNameAndRank ?st (ranks ! i) (p ! i) = Some a"
    using pr2_pairs_known[of "ranks ! i" "p ! i" ls fo n] by auto
  from pr2_lin_lines[OF hier, of fo n] t
  obtain p' i' where p': "p' \<in> set (pr2_paths ls)" and i': "i' < length p'" "i' < length ranks"
    and r: "ranks ! i = ranks ! i'" and nm: "p ! i = p' ! i'"
    and g: "getLineage (nodes ?st) a = Some (take (Suc i') p')"
    unfolding pr2_lin_def by blast
  have ii: "i' = i" using r i(2) i'(2) ranks_distinct by (simp add: nth_eq_iff_index_eq)
  have "take i p' = take i p" using hier p p' i i' nm ii unfolding pr2_hier_def by metis
  then have "take (Suc i) p' = take (Suc i) p"
    using i(1) i'(1) nm ii by (simp add: take_Suc_conv_app_nth)
  then have "getLineage (nodes ?st) a = Some (take (Suc i) p)" using g ii by simp
  moreover have "0 < a" "a < length (nodes ?st)" using pr2_tableD(1)[OF tab t] by simp_all
  ultimately show ?thesis using that t by blast
qed

lemma pr2_lineage_bij:
  assumes hier: "pr2_hier (pr2_paths ls)"
  shows "bij_betw (\<lambda>a. the (getLineage (nodes (pr2_lines fo n ls)) a))
           {1..<length (nodes (pr2_lines fo n ls))}
           (set (prefixes_of (map (take (length ranks)) (pr2_paths ls))))"
proof (rule bij_betw_imageI)
  let ?st = "pr2_lines fo n ls"
  let ?g = "\<lambda>a. the (getLineage (nodes ?st) a)"
  show "inj_on ?g {1..<length (nodes ?st)}"
  proof (rule inj_onI)
    fix a b assume a: "a \<in> {1..<length (nodes ?st)}" and b: "b \<in> {1..<length (nodes ?st)}"
      and e: "?g a = ?g b"
    have a0: "0 < a" "a < length (nodes ?st)" and b0: "0 < b" "b < length (nodes ?st)"
      using a b by auto
    obtain p i where pi: "i < length p" "i < length ranks"
      "taxaByNameAndRank ?st (ranks ! i) (p ! i) = Some a"
      "getLineage (nodes ?st) a = Some (take (Suc i) p)"
      by (rule pr2_lin_nodes[OF hier a0])
    obtain q j where qj: "j < length q" "j < length ranks"
      "taxaByNameAndRank ?st (ranks ! j) (q ! j) = Some b"
      "getLineage (nodes ?st) b = Some (take (Suc j) q)"
      by (rule pr2_lin_nodes[OF hier b0])
    have eq: "take (Suc i) p = take (Suc j) q" using e pi(4) qj(4) by simp
    then have "length (take (Suc i) p) = length (take (Suc j) q)" by simp
    then have ij: "i = j" using pi(1) qj(1) by simp
    have "take (Suc i) p ! i = take (Suc j) q ! i" using eq by simp
    then have "p ! i = q ! j" using ij by simp
    then show "a = b" using pi(3) qj(3) ij by simp
  qed
  show "?g ` {1..<length (nodes ?st)} =
          set (prefixes_of (map (take (length ranks)) (pr2_paths ls)))"
    unfolding set_prefixes_of_take
  proof (intro set_eqI iffI)
    fix x assume "x \<in> ?g ` {1..<length (nodes ?st)}"
    then obtain a where a: "a \<in> {1..<length (nodes ?st)}" and x: "x = ?g a" by blast
    have a0: "0 < a" "a < length (nodes ?st)" using a by auto
    obtain p i where "p \<in> set (pr2_paths ls)" "i < length p" "i < length ranks"
      "getLineage (nodes ?st) a = Some (take (Suc i) p)"
      by (rule pr2_lin_nodes[OF hier a0])
    then show "x \<in> {take (Suc i) p | p i.
                 p \<in> set (pr2_paths ls) \<and> i < length p \<and> i < length ranks}"
      using x by auto
  next
    fix x assume "x \<in> {take (Suc i) p | p i.
                 p \<in> set (pr2_paths ls) \<and> i < length p \<and> i < length ranks}"
    then obtain p i where p: "p \<in> set (pr2_paths ls)" and i: "i < length p" "i < length ranks"
      and x: "x = take (Suc i) p" by blast
    obtain a where "0 < a" "a < length (nodes ?st)"
      "getLineage (nodes ?st) a = Some (take (Suc i) p)"
      using pr2_prefix_node[OF hier p i, of fo n] by blast
    then have "a \<in> {1..<length (nodes ?st)}" "?g a = x" using x by auto
    then show "x \<in> ?g ` {1..<length (nodes ?st)}" by blast
  qed
qed

lemma pr2_returned_lineage:
  assumes hier: "pr2_hier (pr2_paths ls)" and l: "l \<in> set ls" "is_header l"
  shows "\<exists>a. foldl pr2_taxon (pr2_lines fo n ls, 0) (zip ranks (pr2_names l)) =
               (pr2_lines fo n ls, a) \<and>
             getLineage (nodes (pr2_lines fo n ls)) a = Some (take (length ranks) (pr2_names l))"
proof -
  let ?st = "pr2_lines fo n ls"
  let ?q = "pr2_names l"
  have inv: "pr2_inv n ?st" by (rule pr2_inv_lines)
  have q: "?q \<in> set (pr2_paths ls)" using l by (simp add: pr2_paths_def)
  have kn: "\<forall>(r, nm)\<in>set (zip ranks ?q). taxaByNameAndRank ?st r nm \<noteq> None"
    using pr2_lines_known[OF l] by blast
  have same: "fst (foldl pr2_taxon (?st, 0) (zip ranks ?q)) = ?st"
    by (rule pr2_path_same[OF kn])
  have "getLineage (nodes (fst (foldl pr2_taxon (?st, 0) (zip ranks ?q))))
           (snd (foldl pr2_taxon (?st, 0) (zip ranks ?q))) = Some (take (length ranks) ?q)"
    using pr2_lin_path[OF hier q inv pr2_lin_lines[OF hier] pr2_inv_nonempty[OF inv], of 0]
      pr2_inv_root_lineage[OF inv] by simp
  then have "getLineage (nodes ?st) (snd (foldl pr2_taxon (?st, 0) (zip ranks ?q))) =
       Some (take (length ranks) ?q)" using same by simp
  moreover have "foldl pr2_taxon (?st, 0) (zip ranks ?q) =
       (?st, snd (foldl pr2_taxon (?st, 0) (zip ranks ?q)))"
    using same by (metis prod.collapse)
  ultimately show ?thesis by blast
qed

lemma example_pr2_paths:
  "pr2_paths example_pr2 =
     [[''Eukaryota'', ''Fungi'', ''Ascomycota''], [''Eukaryota'', ''Fungi'', ''Basidiomycota'']]"
  by code_simp

lemma example_pr2_hier: "pr2_hier (pr2_paths example_pr2)"
  unfolding example_pr2_paths pr2_hier_def
  by (auto simp: less_Suc_eq numeral_3_eq_3)

section \<open>The tree of buildSilvaTree as a trie\<close>

lemma find_append:
  "List.find P (xs @ ys) = (case List.find P xs of None \<Rightarrow> List.find P ys | Some x \<Rightarrow> Some x)"
  by (induction xs) auto

lemma find_child_Some:
  assumes "find_child h cur nm = Some c"
  shows "c \<in> set (children (h ! cur))" and "name (h ! c) = nm"
  using assms unfolding find_child_def by (auto simp: find_Some_iff)

lemma silva_trieD:
  assumes "silva_trie h"
  shows "0 < length h" and "parent (h ! 0) = None"
    and "\<And>a. 0 < a \<Longrightarrow> a < length h \<Longrightarrow>
           \<exists>p<a. parent (h ! a) = Some p \<and> find_child h p (name (h ! a)) = Some a"
    and "\<And>p c. p < length h \<Longrightarrow> c \<in> set (children (h ! p)) \<Longrightarrow>
           c < length h \<and> parent (h ! c) = Some p"
  using assms unfolding silva_trie_def by blast+

lemma silva_trieI:
  assumes "0 < length h" and "parent (h ! 0) = None"
    and "\<And>a. 0 < a \<Longrightarrow> a < length h \<Longrightarrow>
           \<exists>p<a. parent (h ! a) = Some p \<and> find_child h p (name (h ! a)) = Some a"
    and "\<And>p c. p < length h \<Longrightarrow> c \<in> set (children (h ! p)) \<Longrightarrow>
           c < length h \<and> parent (h ! c) = Some p"
  shows "silva_trie h"
  unfolding silva_trie_def using assms by blast

lemma silva_trie_child:
  assumes "silva_trie h" and "cur < length h" and "find_child h cur nm = Some c"
  shows "c < length h" and "parent (h ! c) = Some cur" and "name (h ! c) = nm" and "0 < c"
proof -
  have c: "c \<in> set (children (h ! cur))" using find_child_Some(1)[OF assms(3)] .
  show "c < length h" "parent (h ! c) = Some cur"
    using silva_trieD(4)[OF assms(1,2) c] by simp_all
  show "name (h ! c) = nm" using find_child_Some(2)[OF assms(3)] .
  show "0 < c" using \<open>parent (h ! c) = Some cur\<close> silva_trieD(2)[OF assms(1)]
    by (cases c) simp_all
qed

lemma silva_walk_append:
  "silva_walk h cur (xs @ ys) =
     (case silva_walk h cur xs of None \<Rightarrow> None | Some c \<Rightarrow> silva_walk h c ys)"
  by (induction xs arbitrary: cur) (auto split: option.splits)

lemma silva_walk_lt:
  assumes "silva_trie h"
  shows "cur < length h \<Longrightarrow> silva_walk h cur xs = Some a \<Longrightarrow> a < length h"
proof (induction xs arbitrary: cur)
  case Nil
  then show ?case by simp
next
  case (Cons nm nms)
  from Cons.prems(2) obtain c where c: "find_child h cur nm = Some c"
    and w: "silva_walk h c nms = Some a" by (auto split: option.splits)
  have "c < length h" by (rule silva_trie_child(1)[OF assms Cons.prems(1) c])
  then show ?case using Cons.IH w by blast
qed

lemma silva_walk_keep:
  assumes "silva_trie h" and "silva_keeps h h'"
  shows "cur < length h \<Longrightarrow> silva_walk h cur xs = Some a \<Longrightarrow> silva_walk h' cur xs = Some a"
proof (induction xs arbitrary: cur)
  case Nil
  then show ?case by simp
next
  case (Cons nm nms)
  from Cons.prems(2) obtain c where c: "find_child h cur nm = Some c"
    and w: "silva_walk h c nms = Some a" by (auto split: option.splits)
  have lt: "c < length h" by (rule silva_trie_child(1)[OF assms(1) Cons.prems(1) c])
  have "find_child h' cur nm = Some c"
    using assms(2) Cons.prems(1) c unfolding silva_keeps_def by blast
  then show ?case using Cons.IH[OF lt w] by simp
qed

lemma silva_lineage_walk:
  assumes "silva_trie h"
  shows "a < length h \<Longrightarrow> \<exists>xs. getLineage h a = Some xs \<and> silva_walk h 0 xs = Some a"
proof (induction a rule: less_induct)
  case (less a)
  show ?case
  proof (cases "a = 0")
    case True
    then show ?thesis using silva_trieD(2)[OF assms] by (simp add: getLineage_root)
  next
    case False
    then obtain p where p: "p < a" "parent (h ! a) = Some p"
      "find_child h p (name (h ! a)) = Some a"
      using silva_trieD(3)[OF assms, of a] less.prems by auto
    then obtain xs where xs: "getLineage h p = Some xs" "silva_walk h 0 xs = Some p"
      using less.IH[of p] less.prems by auto
    have "getLineage h a = Some (xs @ [name (h ! a)])"
      by (rule getLineage_child[OF p(2) xs(1)])
    moreover have "silva_walk h 0 (xs @ [name (h ! a)]) = Some a"
      using xs(2) p(3) by (simp add: silva_walk_append)
    ultimately show ?thesis by blast
  qed
qed

lemma silva_walk_lineage:
  assumes "silva_trie h"
  shows "silva_walk h 0 xs = Some a \<Longrightarrow> getLineage h a = Some xs"
proof (induction xs arbitrary: a rule: rev_induct)
  case Nil
  then show ?case using silva_trieD(2)[OF assms] by (simp add: getLineage_root)
next
  case (snoc nm xs)
  from snoc.prems obtain p where p: "silva_walk h 0 xs = Some p"
    and c: "find_child h p nm = Some a"
    by (auto simp: silva_walk_append split: option.splits)
  have lt: "p < length h" using silva_walk_lt[OF assms silva_trieD(1)[OF assms] p] .
  have "parent (h ! a) = Some p" "name (h ! a) = nm"
    using silva_trie_child(2,3)[OF assms lt c] by simp_all
  then show ?case using getLineage_child[of h a p xs] snoc.IH[OF p] by simp
qed

lemma silva_walk_inj:
  assumes "silva_trie h" and "silva_walk h 0 xs = Some a" and "silva_walk h 0 ys = Some a"
  shows "xs = ys"
  using silva_walk_lineage[OF assms(1,2)] silva_walk_lineage[OF assms(1,3)] by simp

lemma silva_taxon_old:
  assumes "find_child h cur nm = Some c"
  shows "silva_taxon (h, cur) nm = (h, c)"
  using assms by simp

lemma silva_taxon_new:
  assumes "find_child h cur nm = None" and "cur < length h"
  shows "snd (silva_taxon (h, cur) nm) = length h"
    and "length (fst (silva_taxon (h, cur) nm)) = Suc (length h)"
    and "fst (silva_taxon (h, cur) nm) ! length h =
           \<lparr>id_n = PyNone, parentid = PyNone, rank = None, name = nm, parent = Some cur,
            children = [], ncbi_tax_id = None\<rparr>"
    and "\<And>i. i < length h \<Longrightarrow> name (fst (silva_taxon (h, cur) nm) ! i) = name (h ! i)"
    and "\<And>i. i < length h \<Longrightarrow> parent (fst (silva_taxon (h, cur) nm) ! i) = parent (h ! i)"
    and "\<And>i. i < length h \<Longrightarrow> rank (fst (silva_taxon (h, cur) nm) ! i) = rank (h ! i)"
    and "\<And>i. i < length h \<Longrightarrow> children (fst (silva_taxon (h, cur) nm) ! i) =
           (if i = cur then children (h ! i) @ [length h] else children (h ! i))"
proof -
  let ?nw = "(TaxNode_init PyNone PyNone None)\<lparr>name := nm\<rparr>"
  have e: "silva_taxon (h, cur) nm = (setParent (length h) cur (h @ [?nw]), length h)"
    using assms(1) by (simp add: Let_def)
  note sp = setParent_new[OF assms(2), where nw="?nw"]
  show "snd (silva_taxon (h, cur) nm) = length h" unfolding e by simp
  show "length (fst (silva_taxon (h, cur) nm)) = Suc (length h)" unfolding e by simp
  show "fst (silva_taxon (h, cur) nm) ! length h =
           \<lparr>id_n = PyNone, parentid = PyNone, rank = None, name = nm, parent = Some cur,
            children = [], ncbi_tax_id = None\<rparr>"
    unfolding e using sp(2) by (simp add: TaxNode_init_def)
  show "name (fst (silva_taxon (h, cur) nm) ! i) = name (h ! i)" if "i < length h" for i
    unfolding e using sp(3) sp(4)[OF that] by (cases "i = cur") simp_all
  show "parent (fst (silva_taxon (h, cur) nm) ! i) = parent (h ! i)" if "i < length h" for i
    unfolding e using sp(3) sp(4)[OF that] by (cases "i = cur") simp_all
  show "rank (fst (silva_taxon (h, cur) nm) ! i) = rank (h ! i)" if "i < length h" for i
    unfolding e using sp(3) sp(4)[OF that] by (cases "i = cur") simp_all
  show "children (fst (silva_taxon (h, cur) nm) ! i) =
           (if i = cur then children (h ! i) @ [length h] else children (h ! i))"
    if "i < length h" for i
    unfolding e using sp(3) sp(4)[OF that] by (cases "i = cur") simp_all
qed

declare silva_taxon.simps [simp del]

lemma silva_taxon_new_find:
  assumes tr: "silva_trie h" and nf: "find_child h cur nm = None" and cur: "cur < length h"
    and p: "p < length h"
  shows "find_child (fst (silva_taxon (h, cur) nm)) p nm' =
           (case find_child h p nm' of
              Some c \<Rightarrow> Some c
            | None \<Rightarrow> if p = cur \<and> nm' = nm then Some (length h) else None)"
proof -
  let ?h = "fst (silva_taxon (h, cur) nm)"
  note new = silva_taxon_new[OF nf cur]
  have old: "List.find (\<lambda>c. name (?h ! c) = nm') (children (h ! p)) =
             List.find (\<lambda>c. name (h ! c) = nm') (children (h ! p))"
  proof (rule find_cong[OF refl])
    fix c assume "c \<in> set (children (h ! p))"
    then have "c < length h" using silva_trieD(4)[OF tr p] by blast
    then show "(name (?h ! c) = nm') = (name (h ! c) = nm')" using new(4) by simp
  qed
  show ?thesis
  proof (cases "p = cur")
    case False
    then have "children (?h ! p) = children (h ! p)" using new(7)[OF p] by simp
    then show ?thesis using old False by (simp add: find_child_def split: option.splits)
  next
    case True
    then have ch: "children (?h ! p) = children (h ! p) @ [length h]" using new(7)[OF p] by simp
    have nn: "name (?h ! length h) = nm" using new(3) by simp
    show ?thesis unfolding find_child_def ch find_append old using True nn
      by (auto split: option.splits)
  qed
qed

lemma silva_taxon_trie:
  assumes tr: "silva_trie h" and cur: "cur < length h"
  shows "silva_trie (fst (silva_taxon (h, cur) nm))"
proof (cases "find_child h cur nm")
  case (Some c)
  then show ?thesis using tr by (simp add: silva_taxon_old)
next
  case None
  let ?h = "fst (silva_taxon (h, cur) nm)"
  note new = silva_taxon_new[OF None cur] and fnd = silva_taxon_new_find[OF tr None cur]
  note D = silva_trieD[OF tr]
  show ?thesis
  proof (rule silva_trieI)
    show "0 < length ?h" using new(2) by simp
    show "parent (?h ! 0) = None" using new(5)[OF D(1)] D(2) by simp
  next
    fix a assume a: "0 < a" "a < length ?h"
    show "\<exists>p<a. parent (?h ! a) = Some p \<and> find_child ?h p (name (?h ! a)) = Some a"
    proof (cases "a = length h")
      case True
      have "find_child ?h cur nm = Some (length h)" using fnd[OF cur, of nm] None by simp
      then show ?thesis using True new(3) cur by simp
    next
      case False
      then have lt: "a < length h" using a(2) new(2) by simp
      then obtain p where p: "p < a" "parent (h ! a) = Some p"
        "find_child h p (name (h ! a)) = Some a" using D(3)[OF a(1)] by blast
      have "p < length h" using p(1) lt by simp
      then have "find_child ?h p (name (h ! a)) = Some a" using fnd[of p "name (h ! a)"] p(3) by simp
      then show ?thesis using p(1,2) new(4,5)[OF lt] by auto
    qed
  next
    fix p c assume p: "p < length ?h" and c: "c \<in> set (children (?h ! p))"
    show "c < length ?h \<and> parent (?h ! c) = Some p"
    proof (cases "p = length h")
      case True
      then show ?thesis using c new(3) by simp
    next
      case False
      then have lt: "p < length h" using p new(2) by simp
      show ?thesis
      proof (cases "c \<in> set (children (h ! p))")
        case True
        then have "c < length h \<and> parent (h ! c) = Some p" using D(4)[OF lt] by blast
        then show ?thesis using new(2) new(5)[of c] by simp
      next
        case False
        then have "p = cur \<and> c = length h" using c new(7)[OF lt] by (auto split: if_splits)
        then show ?thesis using new(2,3) by simp
      qed
    qed
  qed
qed

lemma silva_keeps_refl: "silva_keeps h h"
  by (auto simp: silva_keeps_def)

lemma silva_keeps_trans:
  assumes "silva_keeps h h1" and "silva_keeps h1 h2"
  shows "silva_keeps h h2"
  unfolding silva_keeps_def
proof (intro conjI allI impI)
  show "length h \<le> length h2" using assms by (simp add: silva_keeps_def)
next
  fix cur nm c assume "cur < length h \<and> find_child h cur nm = Some c"
  then have "cur < length h1 \<and> find_child h1 cur nm = Some c"
    using assms(1) unfolding silva_keeps_def by (metis less_le_trans)
  then show "find_child h2 cur nm = Some c" using assms(2) unfolding silva_keeps_def by blast
next
  fix a assume a: "a < length h"
  then have "a < length h1" using assms(1) by (simp add: silva_keeps_def)
  then show "rank (h2 ! a) = rank (h ! a)" using assms a by (simp add: silva_keeps_def)
next
  fix a assume a: "length h \<le> a \<and> a < length h2"
  show "rank (h2 ! a) = None"
  proof (cases "a < length h1")
    case True
    then have "rank (h2 ! a) = rank (h1 ! a)" using assms(2) by (simp add: silva_keeps_def)
    then show ?thesis using assms(1) a True by (simp add: silva_keeps_def)
  next
    case False
    then show ?thesis using assms(2) a by (simp add: silva_keeps_def)
  qed
qed

lemma silva_taxon_keeps:
  assumes tr: "silva_trie h" and cur: "cur < length h"
  shows "silva_keeps h (fst (silva_taxon (h, cur) nm))"
proof (cases "find_child h cur nm")
  case (Some c)
  then show ?thesis by (simp add: silva_taxon_old silva_keeps_refl)
next
  case None
  note new = silva_taxon_new[OF None cur] and fnd = silva_taxon_new_find[OF tr None cur]
  show ?thesis unfolding silva_keeps_def
    using new(2,3,6) fnd by (auto simp: less_Suc_eq)
qed

lemma silva_taxon_step:
  assumes tr: "silva_trie h" and cur: "cur < length h"
  shows "find_child (fst (silva_taxon (h, cur) nm)) cur nm = Some (snd (silva_taxon (h, cur) nm))"
    and "snd (silva_taxon (h, cur) nm) < length (fst (silva_taxon (h, cur) nm))"
    and "length (fst (silva_taxon (h, cur) nm)) = length h \<or>
         (length (fst (silva_taxon (h, cur) nm)) = Suc (length h) \<and>
          snd (silva_taxon (h, cur) nm) = length h)"
proof -
  have "find_child (fst (silva_taxon (h, cur) nm)) cur nm = Some (snd (silva_taxon (h, cur) nm)) \<and>
        snd (silva_taxon (h, cur) nm) < length (fst (silva_taxon (h, cur) nm)) \<and>
        (length (fst (silva_taxon (h, cur) nm)) = length h \<or>
         (length (fst (silva_taxon (h, cur) nm)) = Suc (length h) \<and>
          snd (silva_taxon (h, cur) nm) = length h))"
  proof (cases "find_child h cur nm")
    case (Some c)
    then show ?thesis using silva_trie_child(1)[OF tr cur Some] by (simp add: silva_taxon_old)
  next
    case None
    note new = silva_taxon_new[OF None cur] and fnd = silva_taxon_new_find[OF tr None cur cur, of nm]
    show ?thesis using new(1,2) fnd None by simp
  qed
  then show "find_child (fst (silva_taxon (h, cur) nm)) cur nm = Some (snd (silva_taxon (h, cur) nm))"
    and "snd (silva_taxon (h, cur) nm) < length (fst (silva_taxon (h, cur) nm))"
    and "length (fst (silva_taxon (h, cur) nm)) = length h \<or>
         (length (fst (silva_taxon (h, cur) nm)) = Suc (length h) \<and>
          snd (silva_taxon (h, cur) nm) = length h)"
    by simp_all
qed

lemma silva_path_walk:
  assumes "silva_trie h" and "cur < length h"
  shows "silva_trie (fst (foldl silva_taxon (h, cur) nms)) \<and>
         silva_keeps h (fst (foldl silva_taxon (h, cur) nms)) \<and>
         snd (foldl silva_taxon (h, cur) nms) < length (fst (foldl silva_taxon (h, cur) nms)) \<and>
         silva_walk (fst (foldl silva_taxon (h, cur) nms)) cur nms =
           Some (snd (foldl silva_taxon (h, cur) nms)) \<and>
         (\<forall>a. length h \<le> a \<and> a < length (fst (foldl silva_taxon (h, cur) nms)) \<longrightarrow>
            (\<exists>i<length nms.
               silva_walk (fst (foldl silva_taxon (h, cur) nms)) cur (take (Suc i) nms) = Some a))"
  using assms
proof (induction nms arbitrary: h cur)
  case Nil
  then show ?case by (simp add: silva_keeps_refl)
next
  case (Cons nm nms)
  obtain h1 c1 where s: "silva_taxon (h, cur) nm = (h1, c1)" by (cases "silva_taxon (h, cur) nm")
  have t1: "silva_trie h1" using silva_taxon_trie[OF Cons.prems, of nm] s by simp
  have k1: "silva_keeps h h1" using silva_taxon_keeps[OF Cons.prems, of nm] s by simp
  have f1: "find_child h1 cur nm = Some c1" and c1: "c1 < length h1"
    and l1: "length h1 = length h \<or> (length h1 = Suc (length h) \<and> c1 = length h)"
    using silva_taxon_step[OF Cons.prems, of nm] s by simp_all
  let ?r = "foldl silva_taxon (h1, c1) nms"
  have e: "foldl silva_taxon (h, cur) (nm # nms) = ?r" using s by simp
  note ih = Cons.IH[OF t1 c1]
  have t: "silva_trie (fst ?r)" and k: "silva_keeps h1 (fst ?r)"
    and c: "snd ?r < length (fst ?r)" and w: "silva_walk (fst ?r) c1 nms = Some (snd ?r)"
    and n: "\<And>a. length h1 \<le> a \<Longrightarrow> a < length (fst ?r) \<Longrightarrow>
              \<exists>i<length nms. silva_walk (fst ?r) c1 (take (Suc i) nms) = Some a"
    using ih by blast+
  have cl: "cur < length h1" using Cons.prems(2) k1 by (simp add: silva_keeps_def)
  have f: "find_child (fst ?r) cur nm = Some c1"
    using k cl f1 unfolding silva_keeps_def by blast
  have new: "\<exists>i<length (nm # nms). silva_walk (fst ?r) cur (take (Suc i) (nm # nms)) = Some a"
    if a: "length h \<le> a" "a < length (fst ?r)" for a
  proof (cases "length h1 \<le> a")
    case True
    then obtain i where "i < length nms" "silva_walk (fst ?r) c1 (take (Suc i) nms) = Some a"
      using n[OF True a(2)] by blast
    then have "Suc i < length (nm # nms)"
      "silva_walk (fst ?r) cur (take (Suc (Suc i)) (nm # nms)) = Some a"
      using f by simp_all
    then show ?thesis by blast
  next
    case False
    then have "a = c1" using l1 a(1) by auto
    then have "silva_walk (fst ?r) cur (take (Suc 0) (nm # nms)) = Some a" using f by simp
    then show ?thesis by blast
  qed
  show ?case unfolding e
    using t silva_keeps_trans[OF k1 k] c w f new by auto
qed

lemma silva_path_same:
  "silva_walk h cur nms = Some a \<Longrightarrow> foldl silva_taxon (h, cur) nms = (h, a)"
proof (induction nms arbitrary: cur)
  case Nil
  then show ?case by simp
next
  case (Cons nm nms)
  from Cons.prems obtain c where c: "find_child h cur nm = Some c"
    and w: "silva_walk h c nms = Some a" by (auto split: option.splits)
  then show ?case using Cons.IH[OF w] by (simp add: silva_taxon_old)
qed

lemma addToTree_start:
  "addToTreeFromString s tree = foldl silva_taxon (silva_start tree, 0) (split (CHR '';'') s)"
  by (simp add: addToTreeFromString_def silva_start_def)

lemma silva_start_trie:
  assumes "tree = [] \<or> silva_trie tree"
  shows "silva_trie (silva_start tree)"
  using assms by (auto simp: silva_start_def silva_trie_def TaxNode_init_def)

lemma silva_start_same: "tree \<noteq> [] \<Longrightarrow> silva_start tree = tree"
  by (simp add: silva_start_def)

lemma silva_shape_find:
  assumes "silva_trie h" and "silva_shape h h'" and "cur < length h"
  shows "find_child h' cur nm = find_child h cur nm"
proof -
  have ch: "children (h' ! cur) = children (h ! cur)"
    using assms(2,3) by (simp add: silva_shape_def)
  have "List.find (\<lambda>c. name (h' ! c) = nm) (children (h ! cur)) =
        List.find (\<lambda>c. name (h ! c) = nm) (children (h ! cur))"
  proof (rule find_cong[OF refl])
    fix c assume "c \<in> set (children (h ! cur))"
    then have "c < length h" using silva_trieD(4)[OF assms(1,3)] by blast
    then show "(name (h' ! c) = nm) = (name (h ! c) = nm)"
      using assms(2) by (simp add: silva_shape_def)
  qed
  then show ?thesis by (simp add: find_child_def ch)
qed

lemma silva_shape_trie:
  assumes "silva_trie h" and "silva_shape h h'"
  shows "silva_trie h'"
proof (rule silva_trieI)
  note D = silva_trieD[OF assms(1)]
  have len: "length h' = length h" using assms(2) by (simp add: silva_shape_def)
  have sh: "\<And>i. i < length h \<Longrightarrow> name (h' ! i) = name (h ! i) \<and> parent (h' ! i) = parent (h ! i) \<and>
        children (h' ! i) = children (h ! i)" using assms(2) by (simp add: silva_shape_def)
  show "0 < length h'" using D(1) len by simp
  show "parent (h' ! 0) = None" using D(1,2) sh by simp
  show "\<exists>p<a. parent (h' ! a) = Some p \<and> find_child h' p (name (h' ! a)) = Some a"
    if a: "0 < a" "a < length h'" for a
  proof -
    have lt: "a < length h" using a len by simp
    obtain p where p: "p < a" "parent (h ! a) = Some p" "find_child h p (name (h ! a)) = Some a"
      using D(3)[OF a(1) lt] by blast
    have "p < length h" using p(1) lt by simp
    then have "find_child h' p (name (h ! a)) = Some a"
      using silva_shape_find[OF assms] p(3) by simp
    then show ?thesis using p(1,2) sh[OF lt] by auto
  qed
  show "c < length h' \<and> parent (h' ! c) = Some p"
    if "p < length h'" "c \<in> set (children (h' ! p))" for p c
  proof -
    have lt: "p < length h" using that len by simp
    then have "c \<in> set (children (h ! p))" using that(2) sh by simp
    then have "c < length h \<and> parent (h ! c) = Some p" using D(4)[OF lt] by blast
    then show ?thesis using len sh by simp
  qed
qed

lemma silva_shape_walk:
  assumes "silva_trie h" and "silva_shape h h'"
  shows "cur < length h \<Longrightarrow> silva_walk h' cur xs = silva_walk h cur xs"
proof (induction xs arbitrary: cur)
  case Nil
  then show ?case by simp
next
  case (Cons nm nms)
  have f: "find_child h' cur nm = find_child h cur nm"
    by (rule silva_shape_find[OF assms Cons.prems])
  show ?case
  proof (cases "find_child h cur nm")
    case None
    then show ?thesis using f by simp
  next
    case (Some c)
    have "c < length h" by (rule silva_trie_child(1)[OF assms(1) Cons.prems Some])
    then show ?thesis using Cons.IH f Some by simp
  qed
qed

lemma silva_shape_refl: "silva_shape h h"
  by (simp add: silva_shape_def)

lemma silva_shape_trans: "silva_shape h h1 \<Longrightarrow> silva_shape h1 h2 \<Longrightarrow> silva_shape h h2"
  by (simp add: silva_shape_def)

lemma silva_row_fields:
  assumes "i < length h"
  shows "name (silva_row h node r t ! i) = name (h ! i)"
    and "parent (silva_row h node r t ! i) = parent (h ! i)"
    and "children (silva_row h node r t ! i) = children (h ! i)"
    and "rank (silva_row h node r t ! i) =
           (if i = node then Some (rankMapping_get r) else rank (h ! i))"
  using assms by (cases "i = node"; simp add: silva_row_def)+

lemma silva_row_shape: "silva_shape h (silva_row h node r t)"
  unfolding silva_shape_def by (simp add: silva_row_fields silva_row_update(1))

lemma silva_fix_fields:
  assumes "i < length h"
  shows "name (snd (silva_fix (m, h) a) ! i) = name (h ! i)"
    and "parent (snd (silva_fix (m, h) a) ! i) = parent (h ! i)"
    and "children (snd (silva_fix (m, h) a) ! i) = children (h ! i)"
    and "rank (snd (silva_fix (m, h) a) ! i) = rank (h ! i)"
  using assms
  by (cases rule: silva_fix_cases[where h=h and a=a and m=m]; cases "i = a"; simp)+

lemma silva_fix_shape: "silva_shape h (snd (silva_fix (m, h) a))"
  unfolding silva_shape_def by (simp add: silva_fix_fields silva_fix_same(1))

lemma silva_fixes_shape:
  "silva_shape h (snd (foldl silva_fix (m, h) gen)) \<and>
   (\<forall>i<length h. rank (snd (foldl silva_fix (m, h) gen) ! i) = rank (h ! i))"
proof (induction gen arbitrary: m h)
  case Nil
  then show ?case by (simp add: silva_shape_refl)
next
  case (Cons x xs)
  obtain m' h' where s: "silva_fix (m, h) x = (m', h')" by (cases "silva_fix (m, h) x")
  have sh: "silva_shape h h'" using silva_fix_shape[of h m x] s by simp
  have rk: "\<forall>i<length h. rank (h' ! i) = rank (h ! i)" using silva_fix_fields(4)[of _ h m x] s by simp
  have len: "length h' = length h" using sh by (simp add: silva_shape_def)
  note ih = Cons[where m=m' and h=h']
  have "silva_shape h (snd (foldl silva_fix (m', h') xs))"
    using ih sh silva_shape_trans by blast
  moreover have "\<forall>i<length h. rank (snd (foldl silva_fix (m', h') xs) ! i) = rank (h ! i)"
    using ih rk len by simp
  ultimately show ?case using s by simp
qed

lemma silva_last_row_snoc:
  "silva_last_row (items @ [it]) xs =
     (if silva_key (fst it) = xs then Some it else silva_last_row items xs)"
  by (simp add: silva_last_row_def)

lemma silva_last_row_Some:
  assumes "silva_last_row items xs = Some it"
  shows "it \<in> set items" and "silva_key (fst it) = xs"
proof -
  from assms obtain i where i: "i < length (rev items)" "silva_key (fst (rev items ! i)) = xs"
    "it = rev items ! i" unfolding silva_last_row_def find_Some_iff by blast
  have "rev items ! i \<in> set (rev items)" using i(1) by (rule nth_mem)
  then show "it \<in> set items" using i(3) by simp
  show "silva_key (fst it) = xs" using i(2,3) by simp
qed

lemma silva_last_row_None:
  "silva_last_row items xs = None \<longleftrightarrow> xs \<notin> (\<lambda>it. silva_key (fst it)) ` set items"
  unfolding silva_last_row_def by (force simp: find_None_iff)

lemma silva_invD:
  assumes "silva_inv m items ps h"
  shows "silva_trie h" and "silva_cov ps h" and "silva_rows m items h"
    and "\<And>it. it \<in> set items \<Longrightarrow> silva_key (fst it) \<in> set ps"
  using assms unfolding silva_inv_def by blast+

lemma silva_covD:
  assumes "silva_cov ps h"
  shows "\<And>a. 0 < a \<Longrightarrow> a < length h \<Longrightarrow>
           \<exists>p\<in>set ps. \<exists>i<length p. silva_walk h 0 (take (Suc i) p) = Some a"
    and "\<And>p. p \<in> set ps \<Longrightarrow> \<exists>a. silva_walk h 0 p = Some a"
  using assms unfolding silva_cov_def by blast+

lemma silva_rowsD:
  assumes "silva_rows m items h" and "a < length h" and "silva_walk h 0 xs = Some a"
  shows "rank (h ! a) = map_option (\<lambda>it. rankMapping_get (snd it)) (silva_last_row items xs)"
    and "ncbi_tax_id (h ! a) = Option.bind (silva_last_row items xs) (\<lambda>it. map_of m (fst it))"
  using assms unfolding silva_rows_def by blast+

lemma silva_inv_start: "silva_inv m [] [] (silva_start [])"
proof -
  have t: "silva_trie (silva_start [])" by (rule silva_start_trie) simp
  have "silva_cov [] (silva_start [])" by (auto simp: silva_cov_def silva_start_def)
  moreover have "silva_rows m [] (silva_start [])"
    by (simp add: silva_rows_def silva_start_def silva_last_row_def TaxNode_init_def)
  ultimately show ?thesis using t by (simp add: silva_inv_def)
qed

lemma silva_insert_old:
  assumes tr: "silva_trie h" and k: "silva_keeps h h'" and tr': "silva_trie h'"
    and a: "a < length h" and w: "silva_walk h' 0 xs = Some a"
  shows "silva_walk h 0 xs = Some a"
proof -
  obtain ys where ys: "silva_walk h 0 ys = Some a"
    using silva_lineage_walk[OF tr a] by blast
  have "silva_walk h' 0 ys = Some a"
    by (rule silva_walk_keep[OF tr k silva_trieD(1)[OF tr] ys])
  then have "ys = xs" using silva_walk_inj[OF tr' _ w] by simp
  then show ?thesis using ys by simp
qed

lemma silva_insert:
  assumes inv: "silva_inv m items ps h" and ins: "foldl silva_taxon (h, 0) q = (h', c)"
  shows "silva_inv m items (ps @ [q]) h'" and "silva_walk h' 0 q = Some c" and "c < length h'"
    and "silva_keeps h h'" and "silva_grows h h'"
proof -
  note I = silva_invD[OF inv]
  note P = silva_path_walk[OF I(1) silva_trieD(1)[OF I(1)], of q, unfolded ins fst_conv snd_conv]
  have tr': "silva_trie h'" and k: "silva_keeps h h'" and c: "c < length h'"
    and w: "silva_walk h' 0 q = Some c"
    and new: "\<And>a. length h \<le> a \<Longrightarrow> a < length h' \<Longrightarrow>
               \<exists>i<length q. silva_walk h' 0 (take (Suc i) q) = Some a"
    using P by blast+
  have g: "silva_grows h h'" using silva_path_grows[of h 0 q] ins by simp
  have pos: "0 < length h" by (rule silva_trieD(1)[OF I(1)])
  have keep: "\<And>xs a. silva_walk h 0 xs = Some a \<Longrightarrow> silva_walk h' 0 xs = Some a"
    by (rule silva_walk_keep[OF I(1) k pos])
  have cov: "silva_cov (ps @ [q]) h'"
    unfolding silva_cov_def
  proof (intro conjI allI impI ballI)
    fix a assume a: "0 < a \<and> a < length h'"
    show "\<exists>p\<in>set (ps @ [q]). \<exists>i<length p. silva_walk h' 0 (take (Suc i) p) = Some a"
    proof (cases "a < length h")
      case True
      then obtain p i where p: "p \<in> set ps" "i < length p"
        "silva_walk h 0 (take (Suc i) p) = Some a"
        using silva_covD(1)[OF I(2), of a] a by blast
      have "silva_walk h' 0 (take (Suc i) p) = Some a" by (rule keep[OF p(3)])
      moreover have "p \<in> set (ps @ [q])" using p(1) by simp
      ultimately show ?thesis using p(2) by blast
    next
      case False
      then obtain i where "i < length q" "silva_walk h' 0 (take (Suc i) q) = Some a"
        using new[of a] a by auto
      moreover have "q \<in> set (ps @ [q])" by simp
      ultimately show ?thesis by blast
    qed
  next
    fix p assume p: "p \<in> set (ps @ [q])"
    show "\<exists>a. silva_walk h' 0 p = Some a"
    proof (cases "p = q")
      case True
      then show ?thesis using w by simp
    next
      case False
      then have "p \<in> set ps" using p by simp
      then obtain a where "silva_walk h 0 p = Some a" using silva_covD(2)[OF I(2)] by blast
      then show ?thesis using keep by blast
    qed
  qed
  have rows: "silva_rows m items h'"
    unfolding silva_rows_def
  proof (intro allI impI)
    fix a xs assume a: "a < length h'" and wx: "silva_walk h' 0 xs = Some a"
    show "rank (h' ! a) = map_option (\<lambda>it. rankMapping_get (snd it)) (silva_last_row items xs) \<and>
          ncbi_tax_id (h' ! a) = Option.bind (silva_last_row items xs) (\<lambda>it. map_of m (fst it))"
    proof (cases "a < length h")
      case True
      have "silva_walk h 0 xs = Some a" by (rule silva_insert_old[OF I(1) k tr' True wx])
      then have "rank (h ! a) =
                   map_option (\<lambda>it. rankMapping_get (snd it)) (silva_last_row items xs)"
        "ncbi_tax_id (h ! a) = Option.bind (silva_last_row items xs) (\<lambda>it. map_of m (fst it))"
        using silva_rowsD[OF I(3) True] by simp_all
      moreover have "rank (h' ! a) = rank (h ! a)" using k True by (simp add: silva_keeps_def)
      moreover have "ncbi_tax_id (h' ! a) = ncbi_tax_id (h ! a)"
        using g True by (simp add: silva_grows_def)
      ultimately show ?thesis by simp
    next
      case False
      then have "rank (h' ! a) = None" using k a by (simp add: silva_keeps_def)
      moreover have "ncbi_tax_id (h' ! a) = None" using g a False by (simp add: silva_grows_def)
      moreover have "silva_last_row items xs = None"
      proof (rule ccontr)
        assume "silva_last_row items xs \<noteq> None"
        then obtain it where "silva_last_row items xs = Some it" by auto
        then have "it \<in> set items" "silva_key (fst it) = xs"
          using silva_last_row_Some[of items xs it] by simp_all
        then have "xs \<in> set ps" using I(4)[of it] by simp
        then obtain b where b: "silva_walk h 0 xs = Some b" using silva_covD(2)[OF I(2)] by blast
        have "b < length h" by (rule silva_walk_lt[OF I(1) pos b])
        moreover have "silva_walk h' 0 xs = Some b" by (rule keep[OF b])
        ultimately show False using wx False by simp
      qed
      ultimately show ?thesis by simp
    qed
  qed
  show "silva_inv m items (ps @ [q]) h'"
    unfolding silva_inv_def using tr' cov rows I(4) by auto
  show "silva_walk h' 0 q = Some c" "c < length h'" "silva_keeps h h'" "silva_grows h h'"
    using w c k g by simp_all
qed

lemma silva_inv_row:
  assumes inv: "silva_inv m items ps h" and w: "silva_walk h 0 (silva_key lineage) = Some c"
    and c: "c < length h" and t: "map_of m lineage = Some t"
    and q: "silva_key lineage \<in> set ps"
  shows "silva_inv m (items @ [(lineage, r)]) ps (silva_row h c r t)"
proof -
  note I = silva_invD[OF inv]
  let ?h = "silva_row h c r t"
  have sh: "silva_shape h ?h" by (rule silva_row_shape)
  have len: "length ?h = length h" by (rule silva_row_update(1))
  have tr': "silva_trie ?h" by (rule silva_shape_trie[OF I(1) sh])
  have pos: "0 < length h" by (rule silva_trieD(1)[OF I(1)])
  have wk: "\<And>xs. silva_walk ?h 0 xs = silva_walk h 0 xs"
    by (rule silva_shape_walk[OF I(1) sh pos])
  have cov: "silva_cov ps ?h" using I(2) unfolding silva_cov_def wk len .
  have rows: "silva_rows m (items @ [(lineage, r)]) ?h"
    unfolding silva_rows_def wk len
  proof (intro allI impI)
    fix a xs assume a: "a < length h" and wx: "silva_walk h 0 xs = Some a"
    note R = silva_rowsD[OF I(3) a wx]
    show "rank (?h ! a) = map_option (\<lambda>it. rankMapping_get (snd it))
                            (silva_last_row (items @ [(lineage, r)]) xs) \<and>
          ncbi_tax_id (?h ! a) =
            Option.bind (silva_last_row (items @ [(lineage, r)]) xs) (\<lambda>it. map_of m (fst it))"
    proof (cases "a = c")
      case True
      then have "xs = silva_key lineage" using silva_walk_inj[OF I(1) wx] w by simp
      then show ?thesis using True a t
        by (simp add: silva_last_row_snoc silva_row_fields(4) silva_row_update(3))
    next
      case False
      then have "xs \<noteq> silva_key lineage" using w wx by auto
      then show ?thesis using False a R
        by (simp add: silva_last_row_snoc silva_row_fields(4) silva_row_update(3))
    qed
  qed
  show ?thesis unfolding silva_inv_def using tr' cov rows I(4) q by auto
qed

lemma silva_inv_of_start:
  assumes "(h = [] \<and> items = [] \<and> ps = []) \<or> silva_inv m items ps h"
  shows "silva_inv m items ps (silva_start h)"
proof (cases "h = []")
  case True
  then have "\<not> silva_inv m items ps h" by (simp add: silva_inv_def silva_trie_def)
  then show ?thesis using assms True silva_inv_start by auto
next
  case False
  then show ?thesis using assms by (simp add: silva_start_same)
qed

lemma silva_table_inv:
  assumes "silva_table m items h = Inr h'"
    and "(h = [] \<and> dn = [] \<and> ps = []) \<or> silva_inv m dn ps h"
  shows "(items = [] \<and> h' = h) \<or>
         silva_inv m (dn @ items) (ps @ map (\<lambda>it. silva_key (fst it)) items) h'"
  using assms
proof (induction items arbitrary: h dn ps)
  case Nil
  then show ?case by simp
next
  case (Cons it items)
  obtain lineage r where it: "it = (lineage, r)" by (cases it)
  from Cons.prems(1)[unfolded it] obtain h1 node t where
    a: "addToTreeFromString (strip ''; '' lineage) h = (h1, node)"
    and t: "map_of m lineage = Some t"
    and rest: "silva_table m items (silva_row h1 node r t) = Inr h'"
    by (rule silva_table_step)
  have ins: "foldl silva_taxon (silva_start h, 0) (silva_key lineage) = (h1, node)"
    using a by (simp add: addToTree_start silva_key_def)
  have inv0: "silva_inv m dn ps (silva_start h)" by (rule silva_inv_of_start[OF Cons.prems(2)])
  note S = silva_insert[OF inv0 ins]
  have "silva_inv m (dn @ [(lineage, r)]) (ps @ [silva_key lineage]) (silva_row h1 node r t)"
    by (rule silva_inv_row[OF S(1,2,3) t]) simp
  then have "(items = [] \<and> h' = silva_row h1 node r t) \<or>
         silva_inv m ((dn @ [(lineage, r)]) @ items)
           ((ps @ [silva_key lineage]) @ map (\<lambda>it. silva_key (fst it)) items) h'"
    using Cons.IH[OF rest] by blast
  then show ?case using it \<open>silva_inv m (dn @ [(lineage, r)]) (ps @ [silva_key lineage])
      (silva_row h1 node r t)\<close> by auto
qed

lemma silva_records_inv:
  assumes "(h = [] \<and> items = [] \<and> ps = []) \<or> silva_inv m items ps h"
  shows "(recs = [] \<and> fst (foldl silva_record (h, tm) recs) = h) \<or>
         silva_inv m items (ps @ map (\<lambda>rc. split (CHR '';'') (snd rc)) recs)
           (fst (foldl silva_record (h, tm) recs))"
  using assms
proof (induction recs arbitrary: h tm ps)
  case Nil
  then show ?case by simp
next
  case (Cons rc recs)
  obtain hitid lineage where rc: "rc = (hitid, lineage)" by (cases rc)
  obtain h1 node where a: "addToTreeFromString lineage h = (h1, node)"
    by (cases "addToTreeFromString lineage h")
  have s: "silva_record (h, tm) rc = (h1, AList.update hitid node tm)"
    using a rc by simp
  have ins: "foldl silva_taxon (silva_start h, 0) (split (CHR '';'') lineage) = (h1, node)"
    using a by (simp add: addToTree_start)
  have inv0: "silva_inv m items ps (silva_start h)" by (rule silva_inv_of_start[OF Cons.prems])
  have i1: "silva_inv m items (ps @ [split (CHR '';'') lineage]) h1"
    by (rule silva_insert(1)[OF inv0 ins])
  then have "(recs = [] \<and> fst (foldl silva_record (h1, AList.update hitid node tm) recs) = h1) \<or>
         silva_inv m items ((ps @ [split (CHR '';'') lineage]) @
              map (\<lambda>rc. split (CHR '';'') (snd rc)) recs)
           (fst (foldl silva_record (h1, AList.update hitid node tm) recs))"
    using Cons.IH[of h1 "ps @ [split (CHR '';'') lineage]" "AList.update hitid node tm"] by blast
  then show ?case using s rc i1 by auto
qed

lemma silva_inv_shape:
  assumes inv: "silva_inv m items ps h" and sh: "silva_shape h h'"
    and same: "\<forall>i<length h. rank (h' ! i) = rank (h ! i) \<and> ncbi_tax_id (h' ! i) = ncbi_tax_id (h ! i)"
  shows "silva_inv m items ps h'"
proof -
  note I = silva_invD[OF inv]
  have len: "length h' = length h" using sh by (simp add: silva_shape_def)
  have wk: "\<And>xs. silva_walk h' 0 xs = silva_walk h 0 xs"
    by (rule silva_shape_walk[OF I(1) sh silva_trieD(1)[OF I(1)]])
  have "silva_cov ps h'" using I(2) unfolding silva_cov_def wk len .
  moreover have "silva_rows m items h'"
    using I(3) same unfolding silva_rows_def wk len by simp
  ultimately show ?thesis unfolding silva_inv_def
    using silva_shape_trie[OF I(1) sh] I(4) by blast
qed

lemma silva_build_unfold2:
  assumes "buildSilvaTree treeGen taxFile fastaFile = Some (lg, Inr (root, h, tm))"
  obtains M h0 recs h1 tm1 m2 where
    "max_list (map snd (parseMapFile fst (fst \<circ> snd) taxFile)) = Inr M"
    and "silva_table (parseMapFile fst (fst \<circ> snd) taxFile)
           (parseMapFile fst (snd \<circ> snd) taxFile) [] = Inr h0"
    and "getOrgsFromSilvaFasta fastaFile = Inr recs"
    and "foldl silva_record (h0, []) recs = (h1, tm1)"
    and "h1 \<noteq> []" and "getRootNode h1 0 = Some root"
    and "foldl silva_fix (M, h1) (treeGen h1 root) = (m2, h)"
  using assms
  by (auto simp: buildSilvaTree_def Let_def
           split: sum.splits list.splits option.splits prod.splits)

lemma silva_build_pre:
  assumes "buildSilvaTree treeGen taxFile fastaFile = Some (lg, Inr (root, h, tm))"
  obtains M m2 h1 where
    "max_list (map snd (parseMapFile fst (fst \<circ> snd) taxFile)) = Inr M"
    and "silva_inv (parseMapFile fst (fst \<circ> snd) taxFile)
           (parseMapFile fst (snd \<circ> snd) taxFile) (silva_paths taxFile fastaFile) h1"
    and "root = 0"
    and "foldl silva_fix (M, h1) (treeGen h1 0) = (m2, h)"
proof -
  let ?m = "parseMapFile fst (fst \<circ> snd) taxFile"
  let ?rm = "parseMapFile fst (snd \<circ> snd) taxFile"
  from assms obtain M h0 recs h1 tm1 m2 where
    mx: "max_list (map snd ?m) = Inr M"
    and tb: "silva_table ?m ?rm [] = Inr h0"
    and rc: "getOrgsFromSilvaFasta fastaFile = Inr recs"
    and f: "foldl silva_record (h0, []) recs = (h1, tm1)"
    and ne: "h1 \<noteq> []" and g: "getRootNode h1 0 = Some root"
    and fx: "foldl silva_fix (M, h1) (treeGen h1 root) = (m2, h)"
    by (rule silva_build_unfold2)
  let ?pa = "map (\<lambda>it. silva_key (fst it)) ?rm"
  let ?ps = "?pa @ map (\<lambda>rc. split (CHR '';'') (snd rc)) recs"
  have ps: "silva_paths taxFile fastaFile = ?ps" by (simp add: silva_paths_def rc)
  have i0: "(h0 = [] \<and> ?rm = [] \<and> ?pa = []) \<or> silva_inv ?m ?rm ?pa h0"
    using silva_table_inv[OF tb, where dn="[]" and ps="[]"] by auto
  have d: "(recs = [] \<and> h1 = h0) \<or> silva_inv ?m ?rm ?ps h1"
    using silva_records_inv[OF i0, where recs=recs and tm="[]"] f by simp
  have i1: "silva_inv ?m ?rm ?ps h1"
  proof (cases "recs = [] \<and> h1 = h0")
    case True
    then have "silva_inv ?m ?rm ?pa h0" using i0 ne by blast
    then show ?thesis using True by simp
  next
    case False
    then show ?thesis using d by blast
  qed
  have r1: "silva_root h1" using silva_invD(1)[OF i1] by (simp add: silva_root_def silva_trie_def)
  have r0: "root = 0" using getRootNode_root[OF r1] g by simp
  show ?thesis using that[OF mx i1[folded ps] r0] fx r0 by simp
qed

lemma silva_build_inv:
  assumes "buildSilvaTree treeGen taxFile fastaFile = Some (lg, Inr (root, h, tm))"
  shows "silva_inv (parseMapFile fst (fst \<circ> snd) taxFile) (parseMapFile fst (snd \<circ> snd) taxFile)
           (silva_paths taxFile fastaFile) h"
    and "root = 0"
proof -
  from assms obtain M m2 h1 where
    i1: "silva_inv (parseMapFile fst (fst \<circ> snd) taxFile)
           (parseMapFile fst (snd \<circ> snd) taxFile) (silva_paths taxFile fastaFile) h1"
    and r0: "root = 0"
    and fx: "foldl silva_fix (M, h1) (treeGen h1 0) = (m2, h)"
    by (rule silva_build_pre)
  show "root = 0" by (rule r0)
  have sh: "silva_shape h1 h" "\<forall>i<length h1. rank (h ! i) = rank (h1 ! i)"
    using silva_fixes_shape[of h1 M "treeGen h1 0"] fx by simp_all
  have nc: "\<forall>i<length h1. ncbi_tax_id (h ! i) = ncbi_tax_id (h1 ! i)"
    using silva_fixes_same[of M h1 "treeGen h1 0"] fx by simp
  show "silva_inv (parseMapFile fst (fst \<circ> snd) taxFile) (parseMapFile fst (snd \<circ> snd) taxFile)
           (silva_paths taxFile fastaFile) h"
    by (rule silva_inv_shape[OF i1 sh(1)]) (use sh(2) nc in simp)
qed

lemma silva_walk_prefix:
  assumes "silva_walk h cur xs = Some a"
  shows "\<exists>b. silva_walk h cur (take n xs) = Some b"
proof -
  have "silva_walk h cur (take n xs @ drop n xs) = Some a" using assms by simp
  then show ?thesis unfolding silva_walk_append by (auto split: option.splits)
qed

lemma silva_inv_node:
  assumes inv: "silva_inv m items ps h" and a: "a < length h"
  obtains xs where "getLineage h a = Some xs" and "silva_walk h 0 xs = Some a"
    and "rank (h ! a) = map_option (\<lambda>it. rankMapping_get (snd it)) (silva_last_row items xs)"
    and "ncbi_tax_id (h ! a) = Option.bind (silva_last_row items xs) (\<lambda>it. map_of m (fst it))"
    and "0 < a \<Longrightarrow> \<exists>p\<in>set ps. \<exists>i<length p. xs = take (Suc i) p"
proof -
  note I = silva_invD[OF inv]
  obtain xs where xs: "getLineage h a = Some xs" "silva_walk h 0 xs = Some a"
    using silva_lineage_walk[OF I(1) a] by blast
  have "\<exists>p\<in>set ps. \<exists>i<length p. xs = take (Suc i) p" if a0: "0 < a"
  proof -
    obtain p i where p: "p \<in> set ps" "i < length p" "silva_walk h 0 (take (Suc i) p) = Some a"
      using silva_covD(1)[OF I(2) a0 a] by blast
    have "xs = take (Suc i) p" by (rule silva_walk_inj[OF I(1) xs(2) p(3)])
    then show ?thesis using p(1,2) by blast
  qed
  then show ?thesis using that[OF xs silva_rowsD[OF I(3) a xs(2)]] by blast
qed

lemma silva_inv_prefix:
  assumes inv: "silva_inv m items ps h" and p: "p \<in> set ps" and i: "i < length p"
  obtains a where "0 < a" and "a < length h" and "getLineage h a = Some (take (Suc i) p)"
proof -
  note I = silva_invD[OF inv]
  obtain b where "silva_walk h 0 p = Some b" using silva_covD(2)[OF I(2) p] by blast
  then obtain a where w: "silva_walk h 0 (take (Suc i) p) = Some a"
    using silva_walk_prefix by blast
  have lt: "a < length h" by (rule silva_walk_lt[OF I(1) silva_trieD(1)[OF I(1)] w])
  have g: "getLineage h a = Some (take (Suc i) p)" by (rule silva_walk_lineage[OF I(1) w])
  have r: "getLineage h 0 = Some []" using silva_trieD(2)[OF I(1)] by (rule getLineage_root)
  have ne: "take (Suc i) p \<noteq> []" using i by (cases p) simp_all
  have "a \<noteq> 0"
  proof
    assume "a = 0"
    then have "Some (take (Suc i) p) = Some []" using g r by simp
    then show False using ne by simp
  qed
  then show ?thesis using that lt g by simp
qed

lemma silva_inv_bij:
  assumes inv: "silva_inv m items ps h"
  shows "bij_betw (\<lambda>a. the (getLineage h a)) {1..<length h} (set (prefixes_of ps))"
proof (rule bij_betw_imageI)
  note I = silva_invD[OF inv]
  show "inj_on (\<lambda>a. the (getLineage h a)) {1..<length h}"
  proof (rule inj_onI)
    fix a b assume a: "a \<in> {1..<length h}" and b: "b \<in> {1..<length h}"
      and e: "the (getLineage h a) = the (getLineage h b)"
    have la: "a < length h" and lb: "b < length h" using a b by auto
    obtain xs where xs: "getLineage h a = Some xs" "silva_walk h 0 xs = Some a"
      using silva_lineage_walk[OF I(1) la] by blast
    obtain ys where ys: "getLineage h b = Some ys" "silva_walk h 0 ys = Some b"
      using silva_lineage_walk[OF I(1) lb] by blast
    have "xs = ys" using e xs(1) ys(1) by simp
    then show "a = b" using xs(2) ys(2) by simp
  qed
  show "(\<lambda>a. the (getLineage h a)) ` {1..<length h} = set (prefixes_of ps)"
    unfolding set_prefixes_of
  proof (intro set_eqI iffI)
    fix x assume "x \<in> (\<lambda>a. the (getLineage h a)) ` {1..<length h}"
    then obtain a where a: "a \<in> {1..<length h}" and x: "x = the (getLineage h a)" by blast
    have a0: "0 < a" and la: "a < length h" using a by auto
    obtain xs where "getLineage h a = Some xs" "\<exists>p\<in>set ps. \<exists>i<length p. xs = take (Suc i) p"
      using silva_inv_node[OF inv la] a0 by metis
    then show "x \<in> {take (Suc i) p | p i. p \<in> set ps \<and> i < length p}" using x by auto
  next
    fix x assume "x \<in> {take (Suc i) p | p i. p \<in> set ps \<and> i < length p}"
    then obtain p i where p: "p \<in> set ps" and i: "i < length p" and x: "x = take (Suc i) p"
      by blast
    obtain a where "0 < a" "a < length h" "getLineage h a = Some (take (Suc i) p)"
      by (rule silva_inv_prefix[OF inv p i])
    then have "a \<in> {1..<length h}" "the (getLineage h a) = x" using x by auto
    then show "x \<in> (\<lambda>a. the (getLineage h a)) ` {1..<length h}" by blast
  qed
qed

lemma silva_inv_returned:
  assumes inv: "silva_inv m items ps h" and s: "split (CHR '';'') s \<in> set ps"
  shows "\<exists>a. addToTreeFromString s h = (h, a) \<and> getLineage h a = Some (split (CHR '';'') s)"
proof -
  note I = silva_invD[OF inv]
  obtain a where w: "silva_walk h 0 (split (CHR '';'') s) = Some a"
    using silva_covD(2)[OF I(2) s] by blast
  have ne: "h \<noteq> []" using silva_trieD(1)[OF I(1)] by auto
  have "addToTreeFromString s h = (h, a)"
    unfolding addToTree_start silva_start_same[OF ne] by (rule silva_path_same[OF w])
  moreover have "getLineage h a = Some (split (CHR '';'') s)" by (rule silva_walk_lineage[OF I(1) w])
  ultimately show ?thesis by blast
qed

section \<open>The walk over the tree\<close>













section \<open>The claims\<close>

text \<open>
  C1 as stated fails for buildPR2Tree. After the lines with the paths A, X, Z and
  B, X, W, the node returned for the second line hangs under A: its path from the
  root is A, X, W. The node B has no child, and there are five nodes below the root
  for six distinct non-empty prefixes.
\<close>

theorem pr2_crossed_counterexample:
  "nodes (pr2_lines False 0 example_crossed) =
     [\<lparr>id_n = PyStr ''root'', parentid = PyNone, rank = None, name = [],
        parent = None, children = [1, 4], ncbi_tax_id = None\<rparr>,
      \<lparr>id_n = PyInt 1, parentid = PyStr ''root'', rank = Some ''domain'',
        name = ''A'', parent = Some 0, children = [2], ncbi_tax_id = None\<rparr>,
      \<lparr>id_n = PyInt 2, parentid = PyInt 1, rank = Some ''kingdom'',
        name = ''X'', parent = Some 1, children = [3, 5], ncbi_tax_id = None\<rparr>,
      \<lparr>id_n = PyInt 3, parentid = PyInt 2, rank = Some ''phylum'', name = ''Z'',
        parent = Some 2, children = [], ncbi_tax_id = None\<rparr>,
      \<lparr>id_n = PyInt 4, parentid = PyStr ''root'', rank = Some ''domain'',
        name = ''B'', parent = Some 0, children = [], ncbi_tax_id = None\<rparr>,
      \<lparr>id_n = PyInt 5, parentid = PyInt 2, rank = Some ''phylum'', name = ''W'',
        parent = Some 2, children = [], ncbi_tax_id = None\<rparr>] \<and>
   taxMap (pr2_lines False 0 example_crossed) = [(''a'', PyInt 3), (''b'', PyInt 5)] \<and>
   pr2_paths example_crossed = [[''A'', ''X'', ''Z''], [''B'', ''X'', ''W'']] \<and>
   getLineage (nodes (pr2_lines False 0 example_crossed)) 5 = Some [''A'', ''X'', ''W''] \<and>
   prefixes_of (pr2_paths example_crossed) =
     [[''A''], [''A'', ''X''], [''A'', ''X'', ''Z''], [''B''], [''B'', ''X''],
      [''B'', ''X'', ''W'']]"
  by code_simp

text \<open>
  C1, as the code has it. In buildSilvaTree an insertion step looks the name up among
  the children of the current node: it descends into the child of that name when there
  is one, and otherwise creates a node and links it as the last child of the current
  node. After the lineages of the table and of the records are inserted, the nodes
  other than the root are in one-to-one correspondence, by their path from the root,
  with the distinct non-empty prefixes of the inserted paths, and the node returned for
  a lineage has that lineage as its path from the root.

  In buildPR2Tree an insertion step looks the name up in the table of all nodes of its
  rank position, not among the children of the current node: a node of that rank and
  name is reused wherever it hangs, and otherwise a new node is created and linked as
  the last child of the current node. After all insertions the nodes other than the
  root are in one-to-one correspondence with the distinct pairs of rank and name that
  the first eight names of the inserted paths form. When the paths are hierarchical,
  the nodes other than the root are in one-to-one correspondence, by their path from
  the root, with the distinct non-empty prefixes of the inserted paths cut to eight
  names, and the path from the root to the node returned for a lineage is that lineage
  cut to eight names.
\<close>

theorem tree_nodes_correspond:
  "(\<forall>t cur nm c. find_child t cur nm = Some c \<longrightarrow> silva_taxon (t, cur) nm = (t, c)) \<and>
   (\<forall>t cur nm. find_child t cur nm = None \<and> cur < length t \<longrightarrow>
       snd (silva_taxon (t, cur) nm) = length t \<and>
       fst (silva_taxon (t, cur) nm) ! length t =
         \<lparr>id_n = PyNone, parentid = PyNone, rank = None, name = nm, parent = Some cur,
          children = [], ncbi_tax_id = None\<rparr> \<and>
       children (fst (silva_taxon (t, cur) nm) ! cur) = children (t ! cur) @ [length t]) \<and>
   (buildSilvaTree treeGen taxFile fastaFile = Some (lg, Inr (root, h, tm)) \<longrightarrow>
      bij_betw (\<lambda>a. the (getLineage h a)) {1..<length h}
        (set (prefixes_of (silva_paths taxFile fastaFile))) \<and>
      (\<forall>it\<in>set (parseMapFile fst (snd \<circ> snd) taxFile).
         \<exists>a. addToTreeFromString (strip ''; '' (fst it)) h = (h, a) \<and>
             getLineage h a = Some (split (CHR '';'') (strip ''; '' (fst it)))) \<and>
      (\<forall>recs. getOrgsFromSilvaFasta fastaFile = Inr recs \<longrightarrow>
         (\<forall>rc\<in>set recs.
            \<exists>a. addToTreeFromString (snd rc) h = (h, a) \<and>
                getLineage h a = Some (split (CHR '';'') (snd rc))))) \<and>
   (\<forall>st l r nm a. taxaByNameAndRank st r nm = Some a \<longrightarrow>
       pr2_taxon (st, l) (r, nm) = (st, a)) \<and>
   (\<forall>st l r nm. taxaByNameAndRank st r nm = None \<and> l < length (nodes st) \<longrightarrow>
       snd (pr2_taxon (st, l) (r, nm)) = length (nodes st) \<and>
       nodes (fst (pr2_taxon (st, l) (r, nm))) ! length (nodes st) = pr2_new st l r nm \<and>
       children (nodes (fst (pr2_taxon (st, l) (r, nm))) ! l) =
         children (nodes st ! l) @ [length (nodes st)]) \<and>
   bij_betw (\<lambda>a. (the (rank (nodes (pr2_lines fo n ls) ! a)),
                   name (nodes (pr2_lines fo n ls) ! a)))
     {1..<length (nodes (pr2_lines fo n ls))} (pr2_pairs (pr2_paths ls)) \<and>
   (pr2_hier (pr2_paths ls) \<longrightarrow>
      bij_betw (\<lambda>a. the (getLineage (nodes (pr2_lines fo n ls)) a))
        {1..<length (nodes (pr2_lines fo n ls))}
        (set (prefixes_of (map (take (length ranks)) (pr2_paths ls)))) \<and>
      (\<forall>l\<in>set ls. is_header l \<longrightarrow>
         (\<exists>a. foldl pr2_taxon (pr2_lines fo n ls, 0) (zip ranks (pr2_names l)) =
                 (pr2_lines fo n ls, a) \<and>
              getLineage (nodes (pr2_lines fo n ls)) a =
                 Some (take (length ranks) (pr2_names l)))))"
proof -
  have s1: "\<forall>t cur nm c. find_child t cur nm = Some c \<longrightarrow> silva_taxon (t, cur) nm = (t, c)"
    by (simp add: silva_taxon_old)
  have s2: "\<forall>t cur nm. find_child t cur nm = None \<and> cur < length t \<longrightarrow>
       snd (silva_taxon (t, cur) nm) = length t \<and>
       fst (silva_taxon (t, cur) nm) ! length t =
         \<lparr>id_n = PyNone, parentid = PyNone, rank = None, name = nm, parent = Some cur,
          children = [], ncbi_tax_id = None\<rparr> \<and>
       children (fst (silva_taxon (t, cur) nm) ! cur) = children (t ! cur) @ [length t]"
    using silva_taxon_new(1,3,7) by simp
  have s3: "bij_betw (\<lambda>a. the (getLineage h a)) {1..<length h}
        (set (prefixes_of (silva_paths taxFile fastaFile))) \<and>
      (\<forall>it\<in>set (parseMapFile fst (snd \<circ> snd) taxFile).
         \<exists>a. addToTreeFromString (strip ''; '' (fst it)) h = (h, a) \<and>
             getLineage h a = Some (split (CHR '';'') (strip ''; '' (fst it)))) \<and>
      (\<forall>recs. getOrgsFromSilvaFasta fastaFile = Inr recs \<longrightarrow>
         (\<forall>rc\<in>set recs.
            \<exists>a. addToTreeFromString (snd rc) h = (h, a) \<and>
                getLineage h a = Some (split (CHR '';'') (snd rc))))"
    if run: "buildSilvaTree treeGen taxFile fastaFile = Some (lg, Inr (root, h, tm))"
  proof (intro conjI ballI allI impI)
    note inv = silva_build_inv(1)[OF run]
    show "bij_betw (\<lambda>a. the (getLineage h a)) {1..<length h}
            (set (prefixes_of (silva_paths taxFile fastaFile)))"
      by (rule silva_inv_bij[OF inv])
    show "\<exists>a. addToTreeFromString (strip ''; '' (fst it)) h = (h, a) \<and>
             getLineage h a = Some (split (CHR '';'') (strip ''; '' (fst it)))"
      if "it \<in> set (parseMapFile fst (snd \<circ> snd) taxFile)" for it
    proof (rule silva_inv_returned[OF inv])
      show "split (CHR '';'') (strip ''; '' (fst it)) \<in> set (silva_paths taxFile fastaFile)"
        using that by (simp add: silva_paths_def silva_key_def image_iff) blast
    qed
    show "\<exists>a. addToTreeFromString (snd rc) h = (h, a) \<and>
                getLineage h a = Some (split (CHR '';'') (snd rc))"
      if "getOrgsFromSilvaFasta fastaFile = Inr recs" "rc \<in> set recs" for recs rc
    proof (rule silva_inv_returned[OF inv])
      show "split (CHR '';'') (snd rc) \<in> set (silva_paths taxFile fastaFile)"
        using that by (simp add: silva_paths_def image_iff) blast
    qed
  qed
  have a: "\<forall>st l r nm a. taxaByNameAndRank st r nm = Some a \<longrightarrow>
       pr2_taxon (st, l) (r, nm) = (st, a)"
    by (simp add: pr2_taxon_old)
  have b: "\<forall>st l r nm. taxaByNameAndRank st r nm = None \<and> l < length (nodes st) \<longrightarrow>
       snd (pr2_taxon (st, l) (r, nm)) = length (nodes st) \<and>
       nodes (fst (pr2_taxon (st, l) (r, nm))) ! length (nodes st) = pr2_new st l r nm \<and>
       children (nodes (fst (pr2_taxon (st, l) (r, nm))) ! l) =
         children (nodes st ! l) @ [length (nodes st)]"
    using pr2_taxon_new(1,4) pr2_taxon_new_fields(5) by simp
  have c: "pr2_hier (pr2_paths ls) \<longrightarrow>
      bij_betw (\<lambda>a. the (getLineage (nodes (pr2_lines fo n ls)) a))
        {1..<length (nodes (pr2_lines fo n ls))}
        (set (prefixes_of (map (take (length ranks)) (pr2_paths ls)))) \<and>
      (\<forall>l\<in>set ls. is_header l \<longrightarrow>
         (\<exists>a. foldl pr2_taxon (pr2_lines fo n ls, 0) (zip ranks (pr2_names l)) =
                 (pr2_lines fo n ls, a) \<and>
              getLineage (nodes (pr2_lines fo n ls)) a =
                 Some (take (length ranks) (pr2_names l))))"
    using pr2_lineage_bij[of ls fo n] pr2_returned_lineage[of ls _ fo n] by blast
  show ?thesis
    by (intro conjI impI) (use s1 s2 s3 a b c pr2_pairs_bij[of fo n ls] in \<open>blast+\<close>)
qed

theorem tree_nodes_correspond_witness:
  "buildSilvaTree treeGenerator example_ids
     [''>r1 Bacteria;Proteobacteria;Escherichia'' @ [NL], ''ACGT'' @ [NL]] =
   Some ([(INFO, ''Built tree of 4 taxa with the largest ID of 12''),
          (INFO, ''Added nodes from fasta file for a total of 5''),
          (INFO, ''Cleaning up taxmap'')],
         Inr (0, example_ids_heap, [(''r1'', PyInt 14)])) \<and>
   length example_ids_heap = 5 \<and>
   bij_betw (\<lambda>a. the (getLineage example_ids_heap a)) {1..<5}
     (set (prefixes_of (silva_paths example_ids
        [''>r1 Bacteria;Proteobacteria;Escherichia'' @ [NL], ''ACGT'' @ [NL]]))) \<and>
   prefixes_of (silva_paths example_ids
        [''>r1 Bacteria;Proteobacteria;Escherichia'' @ [NL], ''ACGT'' @ [NL]]) =
     [[''Archaea''], [''Bacteria''], [''Bacteria'', ''Proteobacteria''],
      [''Bacteria'', ''Proteobacteria'', ''Escherichia'']] \<and>
   (\<exists>a. addToTreeFromString ''Bacteria;Proteobacteria;Escherichia'' example_ids_heap =
          (example_ids_heap, a) \<and>
        getLineage example_ids_heap a = Some [''Bacteria'', ''Proteobacteria'', ''Escherichia'']) \<and>
   pr2_hier (pr2_paths example_pr2) \<and>
   length (nodes (pr2_lines False 0 example_pr2)) = 5 \<and>
   bij_betw (\<lambda>a. (the (rank (nodes (pr2_lines False 0 example_pr2) ! a)),
                   name (nodes (pr2_lines False 0 example_pr2) ! a)))
     {1..<5} (pr2_pairs (pr2_paths example_pr2)) \<and>
   bij_betw (\<lambda>a. the (getLineage (nodes (pr2_lines False 0 example_pr2)) a))
     {1..<5} (set (prefixes_of (map (take (length ranks)) (pr2_paths example_pr2)))) \<and>
   prefixes_of (map (take (length ranks)) (pr2_paths example_pr2)) =
     [[''Eukaryota'', ''Fungi'', ''Ascomycota''], [''Eukaryota''], [''Eukaryota'', ''Fungi''],
      [''Eukaryota'', ''Fungi'', ''Basidiomycota'']] \<and>
   (\<exists>a. foldl pr2_taxon (pr2_lines False 0 example_pr2, 0)
          (zip ranks (pr2_names (''>B.1.1|Eukaryota|Fungi|Basidiomycota'' @ [NL]))) =
            (pr2_lines False 0 example_pr2, a) \<and>
        getLineage (nodes (pr2_lines False 0 example_pr2)) a =
          Some [''Eukaryota'', ''Fungi'', ''Basidiomycota''])"
proof -
  define st where "st = pr2_lines False 0 example_pr2"
  define l where "l = ''>B.1.1|Eukaryota|Fungi|Basidiomycota'' @ [NL]"
  define fa where "fa = [''>r1 Bacteria;Proteobacteria;Escherichia'' @ [NL], ''ACGT'' @ [NL]]"
  define rc where "rc = (''r1'', ''Bacteria;Proteobacteria;Escherichia'')"
  note run = example_ids_run[folded fa_def]
  note t = tree_nodes_correspond[of treeGenerator example_ids fa _ 0 example_ids_heap
      "[(''r1'', PyInt 14)]" False 0 example_pr2, folded st_def]
  have sl: "length example_ids_heap = 5" by (simp add: example_ids_heap_def)
  have sp: "prefixes_of (silva_paths example_ids fa) =
     [[''Archaea''], [''Bacteria''], [''Bacteria'', ''Proteobacteria''],
      [''Bacteria'', ''Proteobacteria'', ''Escherichia'']]" unfolding fa_def by code_simp
  have go: "getOrgsFromSilvaFasta fa = Inr [rc]" unfolding fa_def rc_def by code_simp
  have sk: "split (CHR '';'') (snd rc) = [''Bacteria'', ''Proteobacteria'', ''Escherichia'']"
    unfolding rc_def by code_simp
  from t run have sb: "bij_betw (\<lambda>a. the (getLineage example_ids_heap a))
     {1..<length example_ids_heap} (set (prefixes_of (silva_paths example_ids fa)))" by blast
  from t run have "\<forall>recs. getOrgsFromSilvaFasta fa = Inr recs \<longrightarrow>
         (\<forall>rc\<in>set recs.
            \<exists>a. addToTreeFromString (snd rc) example_ids_heap = (example_ids_heap, a) \<and>
                getLineage example_ids_heap a = Some (split (CHR '';'') (snd rc)))" by blast
  then have "\<exists>a. addToTreeFromString (snd rc) example_ids_heap = (example_ids_heap, a) \<and>
                getLineage example_ids_heap a = Some (split (CHR '';'') (snd rc))"
    using go by simp
  then have sr: "\<exists>a. addToTreeFromString ''Bacteria;Proteobacteria;Escherichia'' example_ids_heap =
          (example_ids_heap, a) \<and>
        getLineage example_ids_heap a = Some [''Bacteria'', ''Proteobacteria'', ''Escherichia'']"
    unfolding sk by (simp add: rc_def)
  have len: "length (nodes st) = 5" unfolding st_def by code_simp
  have pf: "prefixes_of (map (take (length ranks)) (pr2_paths example_pr2)) =
     [[''Eukaryota'', ''Fungi'', ''Ascomycota''], [''Eukaryota''], [''Eukaryota'', ''Fungi''],
      [''Eukaryota'', ''Fungi'', ''Basidiomycota'']]" by code_simp
  have l: "l \<in> set example_pr2" "is_header l"
    "take (length ranks) (pr2_names l) = [''Eukaryota'', ''Fungi'', ''Basidiomycota'']"
  proof -
    show "l \<in> set example_pr2" by (simp add: l_def example_pr2_def)
    show "is_header l" unfolding l_def by code_simp
    show "take (length ranks) (pr2_names l) = [''Eukaryota'', ''Fungi'', ''Basidiomycota'']"
      unfolding l_def by code_simp
  qed
  from t have b1: "bij_betw (\<lambda>a. (the (rank (nodes st ! a)), name (nodes st ! a)))
     {1..<length (nodes st)} (pr2_pairs (pr2_paths example_pr2))" by blast
  from t example_pr2_hier have b2: "bij_betw (\<lambda>a. the (getLineage (nodes st) a))
     {1..<length (nodes st)} (set (prefixes_of (map (take (length ranks)) (pr2_paths example_pr2))))"
    by blast
  from t example_pr2_hier l(1,2) have
    "\<exists>a. foldl pr2_taxon (st, 0) (zip ranks (pr2_names l)) = (st, a) \<and>
         getLineage (nodes st) a = Some (take (length ranks) (pr2_names l))"
    by blast
  then have r: "\<exists>a. foldl pr2_taxon (st, 0) (zip ranks (pr2_names l)) = (st, a) \<and>
         getLineage (nodes st) a = Some [''Eukaryota'', ''Fungi'', ''Basidiomycota'']"
    unfolding l(3) .
  have silva: "buildSilvaTree treeGenerator example_ids fa =
   Some ([(INFO, ''Built tree of 4 taxa with the largest ID of 12''),
          (INFO, ''Added nodes from fasta file for a total of 5''),
          (INFO, ''Cleaning up taxmap'')],
         Inr (0, example_ids_heap, [(''r1'', PyInt 14)])) \<and>
   length example_ids_heap = 5 \<and>
   bij_betw (\<lambda>a. the (getLineage example_ids_heap a)) {1..<5}
     (set (prefixes_of (silva_paths example_ids fa))) \<and>
   prefixes_of (silva_paths example_ids fa) =
     [[''Archaea''], [''Bacteria''], [''Bacteria'', ''Proteobacteria''],
      [''Bacteria'', ''Proteobacteria'', ''Escherichia'']] \<and>
   (\<exists>a. addToTreeFromString ''Bacteria;Proteobacteria;Escherichia'' example_ids_heap =
          (example_ids_heap, a) \<and>
        getLineage example_ids_heap a = Some [''Bacteria'', ''Proteobacteria'', ''Escherichia''])"
    using run sl sb[unfolded sl] sp sr by blast
  have pr2: "pr2_hier (pr2_paths example_pr2) \<and>
   length (nodes st) = 5 \<and>
   bij_betw (\<lambda>a. (the (rank (nodes st ! a)), name (nodes st ! a)))
     {1..<5} (pr2_pairs (pr2_paths example_pr2)) \<and>
   bij_betw (\<lambda>a. the (getLineage (nodes st) a))
     {1..<5} (set (prefixes_of (map (take (length ranks)) (pr2_paths example_pr2)))) \<and>
   prefixes_of (map (take (length ranks)) (pr2_paths example_pr2)) =
     [[''Eukaryota'', ''Fungi'', ''Ascomycota''], [''Eukaryota''], [''Eukaryota'', ''Fungi''],
      [''Eukaryota'', ''Fungi'', ''Basidiomycota'']] \<and>
   (\<exists>a. foldl pr2_taxon (st, 0) (zip ranks (pr2_names l)) = (st, a) \<and>
        getLineage (nodes st) a = Some [''Eukaryota'', ''Fungi'', ''Basidiomycota''])"
    using example_pr2_hier len b1[unfolded len] b2[unfolded len] pf r by blast
  show ?thesis
    using silva pr2 unfolding st_def l_def fa_def by blast
qed







text \<open>
  C4 as stated fails for the rank-table mode: buildSilvaTree reports the synthetic
  root itself, not a child of it, and logs no warning when the root has two children.
\<close>

theorem silva_root_counterexample:
  "buildSilvaTree treeGenerator example_table [] =
     Some ([(INFO, ''Built tree of 3 taxa with the largest ID of 7''),
            (INFO, ''Added nodes from fasta file for a total of 3''),
            (INFO, ''Cleaning up taxmap'')],
           Inr (0,
                [\<lparr>id_n = PyInt 8, parentid = PyNone, rank = None, name = [],
                   parent = None, children = [1, 2], ncbi_tax_id = None\<rparr>,
                 \<lparr>id_n = PyInt 7, parentid = PyNone, rank = Some ''major_clade'',
                   name = ''Archaea'', parent = Some 0, children = [],
                   ncbi_tax_id = Some 7\<rparr>,
                 \<lparr>id_n = PyInt 3, parentid = PyNone, rank = Some ''domain'',
                   name = ''Bacteria'', parent = Some 0, children = [],
                   ncbi_tax_id = Some 3\<rparr>],
                [])) \<and>
   buildSilvaTree treeGenerator [(''Bacteria;'', 3, ''domain'')] [] =
     Some ([(INFO, ''Built tree of 2 taxa with the largest ID of 3''),
            (INFO, ''Added nodes from fasta file for a total of 2''),
            (INFO, ''Cleaning up taxmap'')],
           Inr (0,
                [\<lparr>id_n = PyInt 4, parentid = PyNone, rank = None, name = [],
                   parent = None, children = [1], ncbi_tax_id = None\<rparr>,
                 \<lparr>id_n = PyInt 3, parentid = PyNone, rank = Some ''domain'',
                   name = ''Bacteria'', parent = Some 0, children = [],
                   ncbi_tax_id = Some 3\<rparr>],
                []))"
  by code_simp

text \<open>
  C4, as the code has it. In the self-contained mode, when the synthetic root has a
  child, buildPR2Tree returns its first child, which is the node created first, and
  logs a warning exactly when the root has more than one child, without aborting. In
  the rank-table mode buildSilvaTree always returns; the root it reports is the
  synthetic root itself, the node without a parent, and it never logs a warning.
\<close>

theorem root_resolution:
  "(children (nodes (pr2_lines fo n ls) ! 0) \<noteq> [] \<longrightarrow>
      (\<exists>lg. buildPR2Tree ls fo n =
               (lg, Inr (hd (children (nodes (pr2_lines fo n ls) ! 0)),
                         nodes (pr2_lines fo n ls), taxMap (pr2_lines fo n ls))) \<and>
            map fst lg = (if length (children (nodes (pr2_lines fo n ls) ! 0)) = 1
                          then [INFO] else [WARNING, INFO])) \<and>
      hd (children (nodes (pr2_lines fo n ls) ! 0)) = 1 \<and>
      parent (nodes (pr2_lines fo n ls) ! 1) = Some 0) \<and>
   (\<exists>lg res. buildSilvaTree treeGen taxFile fastaFile = Some (lg, res) \<and>
        WARNING \<notin> fst ` set lg \<and>
        (\<forall>r h tm. res = Inr (r, h, tm) \<longrightarrow> r = 0 \<and> parent (h ! 0) = None))"
proof -
  let ?st = "pr2_lines fo n ls"
  have pr2: "(\<exists>lg. buildPR2Tree ls fo n =
               (lg, Inr (hd (children (nodes ?st ! 0)), nodes ?st, taxMap ?st)) \<and>
            map fst lg = (if length (children (nodes ?st ! 0)) = 1
                          then [INFO] else [WARNING, INFO])) \<and>
      hd (children (nodes ?st ! 0)) = 1 \<and> parent (nodes ?st ! 1) = Some 0"
    if ne: "children (nodes ?st ! 0) \<noteq> []"
  proof -
    obtain c cs where c: "children (nodes ?st ! 0) = c # cs" using ne by (cases "children (nodes ?st ! 0)") auto
    have f: "1 < length (nodes ?st)" "hd (children (nodes ?st ! 0)) = 1"
      using pr2_first_lines[of fo n ls] ne by (auto simp: pr2_first_def)
    have "pr2_links ?st" using pr2_inv_lines[of n fo ls] by (simp add: pr2_inv_def)
    then have "\<exists>p<1. parent (nodes ?st ! 1) = Some p" using f(1) unfolding pr2_links_def by blast
    then have p: "parent (nodes ?st ! 1) = Some 0" by simp
    show ?thesis using c f(2) p by (simp add: buildPR2Tree_def pr2_root_def Let_def)
  qed
  obtain lg res where s: "buildSilvaTree treeGen taxFile fastaFile = Some (lg, res)"
    and r: "\<forall>r h tm. res = Inr (r, h, tm) \<longrightarrow> r = 0 \<and> silva_root h"
    using silva_build_root[of treeGen taxFile fastaFile] by blast
  have "WARNING \<notin> fst ` set lg" by (rule silva_no_warning_log[OF s])
  then have "\<exists>lg res. buildSilvaTree treeGen taxFile fastaFile = Some (lg, res) \<and>
        WARNING \<notin> fst ` set lg \<and>
        (\<forall>r h tm. res = Inr (r, h, tm) \<longrightarrow> r = 0 \<and> parent (h ! 0) = None)"
    using s r unfolding silva_root_def by blast
  then show ?thesis using pr2 by blast
qed

theorem root_resolution_witness:
  "children (nodes (pr2_lines False 0 example_two_roots) ! 0) = [1, 3] \<and>
   (\<exists>lg. buildPR2Tree example_two_roots False 0 =
            (lg, Inr (1, nodes (pr2_lines False 0 example_two_roots),
                      taxMap (pr2_lines False 0 example_two_roots))) \<and>
          map fst lg = [WARNING, INFO]) \<and>
   parent (nodes (pr2_lines False 0 example_two_roots) ! 1) = Some 0 \<and>
   (\<exists>lg h tm. buildSilvaTree treeGenerator example_table [] = Some (lg, Inr (0, h, tm)) \<and>
        WARNING \<notin> fst ` set lg \<and> parent (h ! 0) = None \<and> children (h ! 0) = [1, 2])"
proof -
  define st where "st = pr2_lines False 0 example_two_roots"
  have c: "children (nodes st ! 0) = [1, 3]" unfolding st_def by code_simp
  note t = root_resolution[of False 0 example_two_roots treeGenerator example_table "[]",
      folded st_def]
  have ne: "children (nodes st ! 0) \<noteq> []" using c by simp
  from t ne have a: "\<exists>lg. buildPR2Tree example_two_roots False 0 =
               (lg, Inr (hd (children (nodes st ! 0)), nodes st, taxMap st)) \<and>
            map fst lg = (if length (children (nodes st ! 0)) = 1
                          then [INFO] else [WARNING, INFO])"
    and p: "parent (nodes st ! 1) = Some 0" by blast+
  from a have a': "\<exists>lg. buildPR2Tree example_two_roots False 0 =
               (lg, Inr (1, nodes st, taxMap st)) \<and> map fst lg = [WARNING, INFO]"
    unfolding c by simp
  from t obtain lg res where s: "buildSilvaTree treeGenerator example_table [] = Some (lg, res)"
    and w: "WARNING \<notin> fst ` set lg"
    and r: "\<forall>r h tm. res = Inr (r, h, tm) \<longrightarrow> r = 0 \<and> parent (h ! 0) = None"
    by blast
  define h where "h = [\<lparr>id_n = PyInt 8, parentid = PyNone, rank = None, name = [],
                   parent = None, children = [1, 2], ncbi_tax_id = None\<rparr>,
                 \<lparr>id_n = PyInt 7, parentid = PyNone, rank = Some ''major_clade'',
                   name = ''Archaea'', parent = Some 0, children = [],
                   ncbi_tax_id = Some 7\<rparr>,
                 \<lparr>id_n = PyInt 3, parentid = PyNone, rank = Some ''domain'',
                   name = ''Bacteria'', parent = Some 0, children = [],
                   ncbi_tax_id = Some 3\<rparr>]"
  define lg' where "lg' = [(INFO, ''Built tree of 3 taxa with the largest ID of 7''),
            (INFO, ''Added nodes from fasta file for a total of 3''),
            (INFO, ''Cleaning up taxmap'')]"
  have e': "buildSilvaTree treeGenerator example_table [] = Some (lg', Inr (0, h, []))"
    unfolding h_def lg'_def by (rule example_table_run)
  have ch: "children (h ! 0) = [1, 2]" by (simp add: h_def)
  have "lg' = lg" "res = Inr (0, h, [])" using s e' by simp_all
  then have "parent (h ! 0) = None" using r by blast
  then have "\<exists>lg h tm. buildSilvaTree treeGenerator example_table [] = Some (lg, Inr (0, h, tm)) \<and>
        WARNING \<notin> fst ` set lg \<and> parent (h ! 0) = None \<and> children (h ! 0) = [1, 2]"
    using e' w ch \<open>lg' = lg\<close> by blast
  then show ?thesis using c a' p unfolding st_def by blast
qed

text \<open>
  C5 as stated fails: the run below ends with ValueError at the header that has no
  description, although the next header is well formed.
\<close>

theorem silva_malformed_header_counterexample:
  "getOrgsFromSilvaFasta [''>AB001.1.1'' @ [NL], ''>r2 Bacteria;X'' @ [NL]] = Inl ValueError \<and>
   getOrgsFromSilvaFasta [''>r2 Bacteria;X'' @ [NL]] = Inr [(''r2'', ''Bacteria;X'')] \<and>
   buildSilvaTree treeGenerator [(''Bacteria;'', 3, ''domain'')]
     [''>AB001.1.1'' @ [NL], ''>r2 Bacteria;X'' @ [NL]] =
   Some ([(INFO, ''Built tree of 2 taxa with the largest ID of 3'')], Inl ValueError)"
  by code_simp

text \<open>
  C5, as the code has it. A header line that does not split into a record id and a
  description makes getOrgsFromSilvaFasta raise ValueError; nothing catches it, so
  buildSilvaTree ends with an error and returns neither root nor map. Lines that do
  not start with \<open>>\<close> are passed over.
\<close>

theorem silva_malformed_header_raises:
  assumes "l \<in> set ls" and "is_header l" and "length (split_ws1 (strip_ws (tl l))) \<noteq> 2"
  shows "getOrgsFromSilvaFasta ls = Inl ValueError \<and>
         (\<exists>lg e. buildSilvaTree treeGen taxFile ls = Some (lg, Inl e)) \<and>
         getOrgsFromSilvaFasta (filter is_header ls) = getOrgsFromSilvaFasta ls"
proof -
  have g: "getOrgsFromSilvaFasta ls = Inl ValueError" by (rule getOrgs_malformed[OF assms])
  then have "\<exists>lg e. buildSilvaTree treeGen taxFile ls = Some (lg, Inl e)"
    by (simp add: buildSilvaTree_def Let_def split: sum.splits)
  then show ?thesis using g getOrgs_filter by simp
qed

theorem silva_malformed_header_raises_witness:
  "is_header (''>AB001.1.1'' @ [NL]) \<and>
   split_ws1 (strip_ws (tl (''>AB001.1.1'' @ [NL]))) = [''AB001.1.1''] \<and>
   getOrgsFromSilvaFasta [''>AB001.1.1'' @ [NL], ''>r2 Bacteria;X'' @ [NL]] = Inl ValueError \<and>
   (\<exists>lg e. buildSilvaTree treeGenerator [(''Bacteria;'', 3, ''domain'')]
              [''>AB001.1.1'' @ [NL], ''>r2 Bacteria;X'' @ [NL]] = Some (lg, Inl e))"
proof -
  have h: "is_header (''>AB001.1.1'' @ [NL])"
    and s: "split_ws1 (strip_ws (tl (''>AB001.1.1'' @ [NL]))) = [''AB001.1.1'']"
    by code_simp+
  have n: "length (split_ws1 (strip_ws (tl (''>AB001.1.1'' @ [NL])))) \<noteq> 2"
    unfolding s by simp
  have m: "''>AB001.1.1'' @ [NL] \<in> set [''>AB001.1.1'' @ [NL], ''>r2 Bacteria;X'' @ [NL]]"
    by simp
  show ?thesis
    using h s silva_malformed_header_raises[OF m h n, of treeGenerator "[(''Bacteria;'', 3, ''domain'')]"]
    by blast
qed

text \<open>
  C6. Under sequential id assignment starting at \<open>idStart\<close> (100 in the claim), the
  node created k-th after the root has the id \<open>idStart + k\<close>, so the first one has
  101; the counter stands at \<open>idStart\<close> plus the number of nodes created; and reading
  again a header whose names are those of a line already read, or a prefix of them,
  changes neither the counter nor the nodes.
\<close>

theorem pr2_sequential_ids:
  "(\<forall>k. 0 < k \<and> k < length (nodes (pr2_lines fo n ls)) \<longrightarrow>
        id_n (nodes (pr2_lines fo n ls) ! k) = PyInt (n + int k)) \<and>
   nextId (pr2_lines fo n ls) = n + int (length (nodes (pr2_lines fo n ls))) - 1 \<and>
   (\<forall>l l'. l \<in> set ls \<and> is_header l \<and> is_header l' \<and> prefix (pr2_names l') (pr2_names l) \<longrightarrow>
        nextId (pr2_line fo (pr2_lines fo n ls) l') = nextId (pr2_lines fo n ls) \<and>
        nodes (pr2_line fo (pr2_lines fo n ls) l') = nodes (pr2_lines fo n ls))"
proof -
  let ?st = "pr2_lines fo n ls"
  have ids: "pr2_ids n ?st" using pr2_inv_lines[of n fo ls] by (simp add: pr2_inv_def)
  have re: "nextId (pr2_line fo ?st l') = nextId ?st \<and> nodes (pr2_line fo ?st l') = nodes ?st"
    if "l \<in> set ls" "is_header l" "is_header l'" "prefix (pr2_names l') (pr2_names l)" for l l'
  proof -
    have "\<forall>(r, nm)\<in>set (zip ranks (pr2_names l')). taxaByNameAndRank ?st r nm \<noteq> None"
      using pr2_lines_known[OF that(1,2)] zip_prefix_subset[OF that(4), of ranks] by blast
    then show ?thesis using pr2_line_known_same[OF that(3)] by blast
  qed
  show ?thesis using ids re unfolding pr2_ids_def by blast
qed

theorem pr2_sequential_ids_witness:
  "length (nodes (pr2_lines False 100
      [''>A.1.1|Eukaryota|Fungi|Ascomycota'' @ [NL],
       ''>B.1.1|Eukaryota|Fungi|Basidiomycota'' @ [NL]])) = 5 \<and>
   id_n (nodes (pr2_lines False 100
      [''>A.1.1|Eukaryota|Fungi|Ascomycota'' @ [NL],
       ''>B.1.1|Eukaryota|Fungi|Basidiomycota'' @ [NL]]) ! 1) = PyInt 101 \<and>
   id_n (nodes (pr2_lines False 100
      [''>A.1.1|Eukaryota|Fungi|Ascomycota'' @ [NL],
       ''>B.1.1|Eukaryota|Fungi|Basidiomycota'' @ [NL]]) ! 4) = PyInt 104 \<and>
   nextId (pr2_lines False 100
      [''>A.1.1|Eukaryota|Fungi|Ascomycota'' @ [NL],
       ''>B.1.1|Eukaryota|Fungi|Basidiomycota'' @ [NL]]) = 104 \<and>
   is_header (''>C.2|Eukaryota|Fungi'' @ [NL]) \<and>
   prefix (pr2_names (''>C.2|Eukaryota|Fungi'' @ [NL]))
          (pr2_names (''>A.1.1|Eukaryota|Fungi|Ascomycota'' @ [NL])) \<and>
   nextId (pr2_line False (pr2_lines False 100
      [''>A.1.1|Eukaryota|Fungi|Ascomycota'' @ [NL],
       ''>B.1.1|Eukaryota|Fungi|Basidiomycota'' @ [NL]]) (''>C.2|Eukaryota|Fungi'' @ [NL])) = 104"
proof -
  let ?ls = "[''>A.1.1|Eukaryota|Fungi|Ascomycota'' @ [NL],
              ''>B.1.1|Eukaryota|Fungi|Basidiomycota'' @ [NL]]"
  have len: "length (nodes (pr2_lines False 100 ?ls)) = 5" by code_simp
  have hd: "is_header (''>A.1.1|Eukaryota|Fungi|Ascomycota'' @ [NL])"
           "is_header (''>C.2|Eukaryota|Fungi'' @ [NL])"
           "prefix (pr2_names (''>C.2|Eukaryota|Fungi'' @ [NL]))
                   (pr2_names (''>A.1.1|Eukaryota|Fungi|Ascomycota'' @ [NL]))"
    by code_simp+
  have mem: "''>A.1.1|Eukaryota|Fungi|Ascomycota'' @ [NL] \<in> set ?ls" by simp
  note t = pr2_sequential_ids[of False 100 ?ls]
  from t have "id_n (nodes (pr2_lines False 100 ?ls) ! 1) = PyInt 101"
              "id_n (nodes (pr2_lines False 100 ?ls) ! 4) = PyInt 104"
    using len by simp_all
  moreover from t have n: "nextId (pr2_lines False 100 ?ls) = 104" using len by simp
  moreover from t have "nextId (pr2_line False (pr2_lines False 100 ?ls) (''>C.2|Eukaryota|Fungi'' @ [NL])) =
        nextId (pr2_lines False 100 ?ls)"
    using mem hd by blast
  ultimately show ?thesis using len hd n by simp
qed

text \<open>
  C7. In the nodes dump the line of the reported root carries the root's own id as
  parent id, and the line of every other node carries the id of the node its
  \<open>parent\<close> refers to: the line is the node's id, tab, bar, tab, that parent id,
  tab, bar, tab, the rank, tab, newline. This holds for whatever sequence of nodes the
  tree walk yields, provided each of them other than the root has a parent, as every
  node under the reported root has; the walk then ends without an error.
\<close>

theorem writeDumpFiles_parent_ids:
  assumes "\<forall>a\<in>set gen. a = rootNode \<or> parent (h ! a) \<noteq> None"
  shows "\<exists>ns ms. writeDumpFiles tr h rootNode gen ([], []) = Inr (ns, ms) \<and>
           length ns = length gen \<and>
           (\<forall>i<length gen.
              ns ! i = str (id_n (h ! (gen ! i))) @ [CHR 0x09] @ ''|'' @ [CHR 0x09] @
                       str (if gen ! i = rootNode then id_n (h ! rootNode)
                            else id_n (h ! the (parent (h ! (gen ! i))))) @
                       [CHR 0x09] @ ''|'' @ [CHR 0x09] @ dump_rank tr (rank (h ! (gen ! i))) @
                       [CHR 0x09, CHR 0x0A])"
proof -
  obtain ns ms where w: "writeDumpFiles tr h rootNode gen ([], []) = Inr (ns, ms)"
    using writeDumpFiles_total[OF assms] by blast
  have "ns = map (\<lambda>a. node_line (id_n (h ! a)) (dump_parent_id h rootNode a)
                        (dump_rank tr (rank (h ! a)))) gen"
    using writeDumpFiles_lines[OF w] by simp
  then have "length ns = length gen \<and>
           (\<forall>i<length gen.
              ns ! i = str (id_n (h ! (gen ! i))) @ [CHR 0x09] @ ''|'' @ [CHR 0x09] @
                       str (if gen ! i = rootNode then id_n (h ! rootNode)
                            else id_n (h ! the (parent (h ! (gen ! i))))) @
                       [CHR 0x09] @ ''|'' @ [CHR 0x09] @ dump_rank tr (rank (h ! (gen ! i))) @
                       [CHR 0x09, CHR 0x0A])"
    by (simp add: dump_parent_id_def node_line_def TAB_def NL_def)
  then show ?thesis using w by blast
qed

theorem writeDumpFiles_parent_ids_witness:
  "treeGenerator (nodes (pr2_lines False 0 example_pr2)) 1 = [1, 2, 3, 4] \<and>
   parent (nodes (pr2_lines False 0 example_pr2) ! 1) = Some 0 \<and>
   id_n (nodes (pr2_lines False 0 example_pr2) ! 0) = PyStr ''root'' \<and>
   (\<exists>ns ms. writeDumpFiles example_ranks (nodes (pr2_lines False 0 example_pr2)) 1 [1, 2, 3, 4]
               ([], []) = Inr (ns, ms) \<and>
            ns ! 0 = ''1'' @ [CHR 0x09] @ ''|'' @ [CHR 0x09] @ ''1'' @ [CHR 0x09] @ ''|'' @
                     [CHR 0x09] @ ''superkingdom'' @ [CHR 0x09, CHR 0x0A] \<and>
            ns ! 1 = ''2'' @ [CHR 0x09] @ ''|'' @ [CHR 0x09] @ ''1'' @ [CHR 0x09] @ ''|'' @
                     [CHR 0x09] @ ''kingdom'' @ [CHR 0x09, CHR 0x0A] \<and>
            ns ! 2 = ''3'' @ [CHR 0x09] @ ''|'' @ [CHR 0x09] @ ''2'' @ [CHR 0x09] @ ''|'' @
                     [CHR 0x09] @ ''phylum'' @ [CHR 0x09, CHR 0x0A] \<and>
            ns ! 3 = ''4'' @ [CHR 0x09] @ ''|'' @ [CHR 0x09] @ ''2'' @ [CHR 0x09] @ ''|'' @
                     [CHR 0x09] @ ''phylum'' @ [CHR 0x09, CHR 0x0A])"
proof -
  define h where "h = nodes (pr2_lines False 0 example_pr2)"
  define gen where "gen = [1, 2, 3, 4 :: nat]"
  note hv = example_pr2_heap[folded h_def]
  have g: "treeGenerator h 1 = gen"
    unfolding hv gen_def by (simp add: treeGenerator_def)
  have r: "parent (h ! 1) = Some 0" "id_n (h ! 0) = PyStr ''root''"
    unfolding hv by simp_all
  have hyp: "\<forall>a\<in>set gen. a = 1 \<or> parent (h ! a) \<noteq> None"
    unfolding hv gen_def by simp
  obtain ns ms where w: "writeDumpFiles example_ranks h 1 gen ([], []) = Inr (ns, ms)"
    and l: "\<And>i. i < length gen \<Longrightarrow>
              ns ! i = str (id_n (h ! (gen ! i))) @ [CHR 0x09] @ ''|'' @ [CHR 0x09] @
                       str (if gen ! i = 1 then id_n (h ! 1)
                            else id_n (h ! the (parent (h ! (gen ! i))))) @
                       [CHR 0x09] @ ''|'' @ [CHR 0x09] @
                       dump_rank example_ranks (rank (h ! (gen ! i))) @ [CHR 0x09, CHR 0x0A]"
    using writeDumpFiles_parent_ids[OF hyp, of example_ranks] by blast
  have d: "str_int 1 = ''1''" "str_int 2 = ''2''" "str_int 3 = ''3''" "str_int 4 = ''4''"
    by code_simp+
  have "ns ! 0 = ''1'' @ [CHR 0x09] @ ''|'' @ [CHR 0x09] @ ''1'' @ [CHR 0x09] @ ''|'' @
                     [CHR 0x09] @ ''superkingdom'' @ [CHR 0x09, CHR 0x0A]"
       "ns ! 1 = ''2'' @ [CHR 0x09] @ ''|'' @ [CHR 0x09] @ ''1'' @ [CHR 0x09] @ ''|'' @
                     [CHR 0x09] @ ''kingdom'' @ [CHR 0x09, CHR 0x0A]"
       "ns ! 2 = ''3'' @ [CHR 0x09] @ ''|'' @ [CHR 0x09] @ ''2'' @ [CHR 0x09] @ ''|'' @
                     [CHR 0x09] @ ''phylum'' @ [CHR 0x09, CHR 0x0A]"
       "ns ! 3 = ''4'' @ [CHR 0x09] @ ''|'' @ [CHR 0x09] @ ''2'' @ [CHR 0x09] @ ''|'' @
                     [CHR 0x09] @ ''phylum'' @ [CHR 0x09, CHR 0x0A]"
    using l[of 0] l[of 1] l[of 2] l[of 3]
    unfolding hv gen_def by (simp_all add: d dump_rank_def example_ranks_def)
  then show ?thesis using g r w unfolding h_def gen_def by blast
qed

text \<open>
  C8. Every line of the three outputs has its fixed format, byte for byte: a line of
  the nodes dump is the id, tab, bar, tab, the parent id, tab, bar, tab, the rank, tab,
  newline; a line of the names dump is the id, tab, bar, tab, the name, tab, bar, tab,
  tab, bar, tab, \<open>scientific name\<close>, tab, newline; a line of the record map is
  the record id, tab, the taxon id, newline. There is one line per node of the walk
  and one per entry of the map.
\<close>

theorem dump_line_formats:
  assumes "writeDumpFiles tr h rootNode gen ([], []) = Inr (ns, ms)"
  shows "length ns = length gen \<and> length ms = length gen \<and>
         (\<forall>i<length gen.
            ns ! i = str (id_n (h ! (gen ! i))) @ [CHR 0x09] @ ''|'' @ [CHR 0x09] @
                     str (dump_parent_id h rootNode (gen ! i)) @ [CHR 0x09] @ ''|'' @
                     [CHR 0x09] @ dump_rank tr (rank (h ! (gen ! i))) @ [CHR 0x09, CHR 0x0A] \<and>
            ms ! i = str (id_n (h ! (gen ! i))) @ [CHR 0x09] @ ''|'' @ [CHR 0x09] @
                     name (h ! (gen ! i)) @ [CHR 0x09] @ ''|'' @ [CHR 0x09, CHR 0x09] @ ''|'' @
                     [CHR 0x09] @ ''scientific name'' @ [CHR 0x09, CHR 0x0A]) \<and>
         length (writeTaxMap taxmap) = length taxmap \<and>
         (\<forall>j<length taxmap.
            writeTaxMap taxmap ! j =
              fst (taxmap ! j) @ [CHR 0x09] @ str (snd (taxmap ! j)) @ [CHR 0x0A])"
proof -
  have "ns = map (\<lambda>a. node_line (id_n (h ! a)) (dump_parent_id h rootNode a)
                        (dump_rank tr (rank (h ! a)))) gen"
       "ms = map (\<lambda>a. name_line (id_n (h ! a)) (name (h ! a))) gen"
    using writeDumpFiles_lines[OF assms] by simp_all
  then show ?thesis
    by (simp add: node_line_def name_line_def writeTaxMap_def TAB_def NL_def case_prod_unfold)
qed

theorem dump_line_formats_witness:
  "writeDumpFiles example_ranks (nodes (pr2_lines False 0 example_pr2)) 1 [1, 2, 3, 4] ([], []) =
     Inr ([''1'' @ [CHR 0x09] @ ''|'' @ [CHR 0x09] @ ''1'' @ [CHR 0x09] @ ''|'' @ [CHR 0x09] @
             ''superkingdom'' @ [CHR 0x09, CHR 0x0A],
           ''2'' @ [CHR 0x09] @ ''|'' @ [CHR 0x09] @ ''1'' @ [CHR 0x09] @ ''|'' @ [CHR 0x09] @
             ''kingdom'' @ [CHR 0x09, CHR 0x0A],
           ''3'' @ [CHR 0x09] @ ''|'' @ [CHR 0x09] @ ''2'' @ [CHR 0x09] @ ''|'' @ [CHR 0x09] @
             ''phylum'' @ [CHR 0x09, CHR 0x0A],
           ''4'' @ [CHR 0x09] @ ''|'' @ [CHR 0x09] @ ''2'' @ [CHR 0x09] @ ''|'' @ [CHR 0x09] @
             ''phylum'' @ [CHR 0x09, CHR 0x0A]],
          [''1'' @ [CHR 0x09] @ ''|'' @ [CHR 0x09] @ ''Eukaryota'' @ [CHR 0x09] @ ''|'' @
             [CHR 0x09, CHR 0x09] @ ''|'' @ [CHR 0x09] @ ''scientific name'' @ [CHR 0x09, CHR 0x0A],
           ''2'' @ [CHR 0x09] @ ''|'' @ [CHR 0x09] @ ''Fungi'' @ [CHR 0x09] @ ''|'' @
             [CHR 0x09, CHR 0x09] @ ''|'' @ [CHR 0x09] @ ''scientific name'' @ [CHR 0x09, CHR 0x0A],
           ''3'' @ [CHR 0x09] @ ''|'' @ [CHR 0x09] @ ''Ascomycota'' @ [CHR 0x09] @ ''|'' @
             [CHR 0x09, CHR 0x09] @ ''|'' @ [CHR 0x09] @ ''scientific name'' @ [CHR 0x09, CHR 0x0A],
           ''4'' @ [CHR 0x09] @ ''|'' @ [CHR 0x09] @ ''Basidiomycota'' @ [CHR 0x09] @ ''|'' @
             [CHR 0x09, CHR 0x09] @ ''|'' @ [CHR 0x09] @ ''scientific name'' @ [CHR 0x09, CHR 0x0A]]) \<and>
   writeTaxMap [(''A.1.1'', PyInt 3), (''B.1.1'', PyInt 4)] =
     [''A.1.1'' @ [CHR 0x09] @ ''3'' @ [CHR 0x0A], ''B.1.1'' @ [CHR 0x09] @ ''4'' @ [CHR 0x0A]]"
proof -
  define h where "h = nodes (pr2_lines False 0 example_pr2)"
  define gen where "gen = [1, 2, 3, 4 :: nat]"
  define tm where "tm = [(''A.1.1'', PyInt 3), (''B.1.1'', PyInt 4)]"
  note hv = example_pr2_heap[folded h_def]
  have hyp: "\<forall>a\<in>set gen. a = 1 \<or> parent (h ! a) \<noteq> None"
    unfolding hv gen_def by simp
  obtain ns ms where w: "writeDumpFiles example_ranks h 1 gen ([], []) = Inr (ns, ms)"
    using writeDumpFiles_total[OF hyp] by blast
  note t = dump_line_formats[OF w, of tm]
  have len: "length ns = 4" "length ms = 4" "length (writeTaxMap tm) = 2"
    using t by (simp_all add: gen_def tm_def)
  have l: "\<And>i. i < length gen \<Longrightarrow>
            ns ! i = str (id_n (h ! (gen ! i))) @ [CHR 0x09] @ ''|'' @ [CHR 0x09] @
                     str (dump_parent_id h 1 (gen ! i)) @ [CHR 0x09] @ ''|'' @
                     [CHR 0x09] @ dump_rank example_ranks (rank (h ! (gen ! i))) @
                     [CHR 0x09, CHR 0x0A] \<and>
            ms ! i = str (id_n (h ! (gen ! i))) @ [CHR 0x09] @ ''|'' @ [CHR 0x09] @
                     name (h ! (gen ! i)) @ [CHR 0x09] @ ''|'' @ [CHR 0x09, CHR 0x09] @ ''|'' @
                     [CHR 0x09] @ ''scientific name'' @ [CHR 0x09, CHR 0x0A]"
    and m: "\<And>j. j < length tm \<Longrightarrow>
            writeTaxMap tm ! j = fst (tm ! j) @ [CHR 0x09] @ str (snd (tm ! j)) @ [CHR 0x0A]"
    using t by blast+
  have d: "str_int 1 = ''1''" "str_int 2 = ''2''" "str_int 3 = ''3''" "str_int 4 = ''4''"
    by code_simp+
  have ns: "ns = [ns ! 0, ns ! 1, ns ! 2, ns ! 3]" and ms: "ms = [ms ! 0, ms ! 1, ms ! 2, ms ! 3]"
    and tl: "writeTaxMap tm = [writeTaxMap tm ! 0, writeTaxMap tm ! 1]"
    using len by (simp_all add: list_eq_iff_nth_eq nth_Cons' numeral_eq_Suc less_Suc_eq)
  have "ns = [''1'' @ [CHR 0x09] @ ''|'' @ [CHR 0x09] @ ''1'' @ [CHR 0x09] @ ''|'' @ [CHR 0x09] @
             ''superkingdom'' @ [CHR 0x09, CHR 0x0A],
           ''2'' @ [CHR 0x09] @ ''|'' @ [CHR 0x09] @ ''1'' @ [CHR 0x09] @ ''|'' @ [CHR 0x09] @
             ''kingdom'' @ [CHR 0x09, CHR 0x0A],
           ''3'' @ [CHR 0x09] @ ''|'' @ [CHR 0x09] @ ''2'' @ [CHR 0x09] @ ''|'' @ [CHR 0x09] @
             ''phylum'' @ [CHR 0x09, CHR 0x0A],
           ''4'' @ [CHR 0x09] @ ''|'' @ [CHR 0x09] @ ''2'' @ [CHR 0x09] @ ''|'' @ [CHR 0x09] @
             ''phylum'' @ [CHR 0x09, CHR 0x0A]]"
    apply (subst ns)
    using l[of 0] l[of 1] l[of 2] l[of 3] unfolding hv gen_def
    by (simp add: d dump_rank_def example_ranks_def dump_parent_id_def)
  moreover have "ms = [''1'' @ [CHR 0x09] @ ''|'' @ [CHR 0x09] @ ''Eukaryota'' @ [CHR 0x09] @ ''|'' @
             [CHR 0x09, CHR 0x09] @ ''|'' @ [CHR 0x09] @ ''scientific name'' @ [CHR 0x09, CHR 0x0A],
           ''2'' @ [CHR 0x09] @ ''|'' @ [CHR 0x09] @ ''Fungi'' @ [CHR 0x09] @ ''|'' @
             [CHR 0x09, CHR 0x09] @ ''|'' @ [CHR 0x09] @ ''scientific name'' @ [CHR 0x09, CHR 0x0A],
           ''3'' @ [CHR 0x09] @ ''|'' @ [CHR 0x09] @ ''Ascomycota'' @ [CHR 0x09] @ ''|'' @
             [CHR 0x09, CHR 0x09] @ ''|'' @ [CHR 0x09] @ ''scientific name'' @ [CHR 0x09, CHR 0x0A],
           ''4'' @ [CHR 0x09] @ ''|'' @ [CHR 0x09] @ ''Basidiomycota'' @ [CHR 0x09] @ ''|'' @
             [CHR 0x09, CHR 0x09] @ ''|'' @ [CHR 0x09] @ ''scientific name'' @ [CHR 0x09, CHR 0x0A]]"
    apply (subst ms)
    using l[of 0] l[of 1] l[of 2] l[of 3] unfolding hv gen_def
    by (simp add: d)
  moreover have "writeTaxMap tm =
     [''A.1.1'' @ [CHR 0x09] @ ''3'' @ [CHR 0x0A], ''B.1.1'' @ [CHR 0x09] @ ''4'' @ [CHR 0x0A]]"
    apply (subst tl)
    using m[of 0] m[of 1] unfolding tm_def by (simp add: d)
  ultimately show ?thesis using w unfolding h_def gen_def tm_def by simp
qed

text \<open>
  C9. A header line that carries a record id and no lineage name inserts the empty
  path: the walk over the names ends at the synthetic root where it started, no node
  is created, the counter stays, and the record is mapped to the root's id, the
  string \<open>'root'\<close>.
\<close>

theorem pr2_empty_path_is_root:
  assumes "is_header line" and "pr2_names line = []"
  shows "foldl pr2_taxon (pr2_lines fo n ls, 0) (zip ranks (pr2_names line)) =
           (pr2_lines fo n ls, 0) \<and>
         nodes (pr2_line fo (pr2_lines fo n ls) line) = nodes (pr2_lines fo n ls) \<and>
         nextId (pr2_line fo (pr2_lines fo n ls) line) = nextId (pr2_lines fo n ls) \<and>
         map_of (taxMap (pr2_line fo (pr2_lines fo n ls) line)) (pr2_hitid line) =
           Some (PyStr ''root'')"
proof -
  have "id_n (nodes (pr2_lines fo n ls) ! 0) = PyStr ''root''"
    using pr2_inv_lines[of n fo ls] by (simp add: pr2_inv_def pr2_ids_def)
  then have "map_of (taxMap (pr2_line fo (pr2_lines fo n ls) line)) (pr2_hitid line) =
           Some (PyStr ''root'')"
    using assms by (cases fo) (simp_all add: pr2_line_header Let_def update_conv')
  then show ?thesis using assms pr2_line_no_names(1,2)[of line fo "pr2_lines fo n ls"] by simp
qed

theorem pr2_empty_path_is_root_witness:
  "is_header (''>KC1.1.1'' @ [NL]) \<and> pr2_names (''>KC1.1.1'' @ [NL]) = [] \<and>
   pr2_hitid (''>KC1.1.1'' @ [NL]) = ''KC1.1.1'' \<and>
   length (nodes (pr2_lines False 0 [''>A.1.1|Eukaryota|Fungi'' @ [NL]])) = 3 \<and>
   nodes (pr2_line False (pr2_lines False 0 [''>A.1.1|Eukaryota|Fungi'' @ [NL]])
            (''>KC1.1.1'' @ [NL])) =
     nodes (pr2_lines False 0 [''>A.1.1|Eukaryota|Fungi'' @ [NL]]) \<and>
   map_of (taxMap (pr2_line False (pr2_lines False 0 [''>A.1.1|Eukaryota|Fungi'' @ [NL]])
                     (''>KC1.1.1'' @ [NL]))) ''KC1.1.1'' = Some (PyStr ''root'')"
proof -
  have h: "is_header (''>KC1.1.1'' @ [NL])" "pr2_names (''>KC1.1.1'' @ [NL]) = []"
     "pr2_hitid (''>KC1.1.1'' @ [NL]) = ''KC1.1.1''"
     "length (nodes (pr2_lines False 0 [''>A.1.1|Eukaryota|Fungi'' @ [NL]])) = 3"
    by code_simp+
  show ?thesis
    using h pr2_empty_path_is_root[OF h(1,2), of False 0 "[''>A.1.1|Eukaryota|Fungi'' @ [NL]]"]
    by simp
qed

text \<open>
  C10. A fasta file none of whose header lines carries a lineage name leaves the
  synthetic root without children, and buildPR2Tree then fails at
  \<open>rootNode.children[0]\<close> with an IndexError instead of returning a root and a map.
\<close>

theorem buildPR2Tree_no_names_IndexError:
  assumes "\<forall>l\<in>set ls. is_header l \<longrightarrow> pr2_names l = []"
  shows "snd (buildPR2Tree ls fo n) = Inl IndexError"
  using pr2_lines_no_names[OF assms, of fo "pr2_init n"]
  by (simp add: buildPR2Tree_def pr2_lines_def pr2_root_def pr2_init_def TaxNode_init_def)

theorem buildPR2Tree_no_names_IndexError_witness:
  "is_header (''>10-044.1.1773'' @ [NL]) \<and> pr2_names (''>10-044.1.1773'' @ [NL]) = [] \<and>
   \<not> is_header (''ACGT'' @ [NL]) \<and>
   snd (buildPR2Tree [''>10-044.1.1773'' @ [NL], ''ACGT'' @ [NL]] False 0) = Inl IndexError"
proof -
  have h: "\<forall>l\<in>set [''>10-044.1.1773'' @ [NL], ''ACGT'' @ [NL]].
             is_header l \<longrightarrow> pr2_names l = []"
    by (simp add: is_header_def pr2_names_def rstrip_def NL_def CR_def)
  have "is_header (''>10-044.1.1773'' @ [NL])" "pr2_names (''>10-044.1.1773'' @ [NL]) = []"
       "\<not> is_header (''ACGT'' @ [NL])"
    by (simp_all add: is_header_def pr2_names_def rstrip_def NL_def CR_def)
  then show ?thesis using buildPR2Tree_no_names_IndexError[OF h] by blast
qed

end
